theory Spec2Isabelle
  imports Main "HOL-Library.Word"
begin

section \<open>Machine types, errors and panics\<close>

text \<open>
  Go's \<^verbatim>\<open>int64\<close> and \<^verbatim>\<open>int32\<close> are words of that width: \<open>+\<close> wraps around,
  \<open>sint\<close> reads the two's complement value and \<open><s\<close>, \<open>\<le>s\<close> are the signed
  comparisons. Go's \<^verbatim>\<open>int\<close> is used for slice indices and lengths only; it is modelled
  as \<open>int\<close> (a slice index never leaves the range of the 64-bit \<^verbatim>\<open>int\<close>).
\<close>

type_synonym byte = "8 word"
type_synonym int32 = "32 word"
type_synonym int64 = "64 word"

text \<open>Go's integer division truncates towards zero.\<close>

definition quo :: "int \<Rightarrow> int \<Rightarrow> int" where
  "quo a b = sgn a * sgn b * (\<bar>a\<bar> div \<bar>b\<bar>)"

text \<open>
  \<^verbatim>\<open>ObjectID\<close> and \<^verbatim>\<open>ObjectSection\<close> (declared outside the files at hand; the fields are
  the ones \<^verbatim>\<open>Open\<close>, \<^verbatim>\<open>hashEncryptAndWrite\<close> and \<^verbatim>\<open>newRawReader\<close> read and write).
  A nil pointer or nil slice is \<open>None\<close>.
\<close>

datatype ObjectID =
  ObjectID (StorageBlock: string) (Indirect: "ObjectID option")
    (Section: "ObjectSection option") (BinaryContent: "byte list option")
    (TextContent: string)
and ObjectSection =
  ObjectSection (Base: ObjectID) (SectionStart: int64) (SectionLength: int64)

definition NullObjectID :: ObjectID where
  "NullObjectID = ObjectID [] None None None []"

text \<open>
  Go's error values. \<open>EOF\<close> and \<open>ErrUnexpectedEOF\<close> are the sentinels of package
  \<^verbatim>\<open>io\<close>, \<open>ErrBlockNotFound\<close> the one of package \<^verbatim>\<open>blob\<close>; the others are
  the errors the code builds with \<^verbatim>\<open>fmt.Errorf\<close>, and \<open>ErrOther\<close> stands for any
  error made by a collaborator.
\<close>

datatype error =
    EOF
  | ErrUnexpectedEOF
  | ErrBlockNotFound
  | ErrInvalidSeek
  | ErrInvalidChecksum string string
  | ErrCannotCreateBaseReader ObjectID error
  | ErrUnableToInitializeCrypto error
  | ErrOther string

text \<open>A panic ends the call without a result; a call that returns gives \<open>Returns\<close>.\<close>

datatype panic =
    PanicUnreachableCode
  | PanicIndexOutOfRange
  | PanicSliceBoundsOutOfRange
  | PanicMakeSliceLenOutOfRange
  | PanicNilDereference

datatype 'a outcome = Panic panic | Returns 'a

text \<open>
  The collaborators of the code are interfaces and types declared outside the files at
  hand; each is a record of its methods. A method that reads or changes the state behind
  it takes that state and returns it. A Go result \<^verbatim>\<open>(v, err)\<close> is a pair whose error is
  \<open>None\<close> for \<^verbatim>\<open>nil\<close>.

  \<^verbatim>\<open>blob.Storage\<close>, with \<open>'w\<close> the state of the blob store:
\<close>

record 'w blob_Storage =
  PutBlock :: "'w \<Rightarrow> string \<Rightarrow> byte list \<Rightarrow> error option \<times> 'w"
  GetBlock :: "'w \<Rightarrow> string \<Rightarrow> int64 \<Rightarrow> int64 \<Rightarrow> (byte list \<times> error option) \<times> 'w"

section \<open>The indirect object reader (object\_reader.go)\<close>

record indirectObjectEntry =
  Start :: int64
  Length :: int64
  Object :: ObjectID

definition endOffset :: "indirectObjectEntry \<Rightarrow> int64" where
  "endOffset i = Start i + Length i"

record objectReader =
  seekTable :: "indirectObjectEntry list"
  currentPosition :: int64
  totalLength :: int64
  currentChunkIndex :: int
  currentChunkData :: "byte list option"
  currentChunkPosition :: int

subsection \<open>findChunkIndexForOffset\<close>

lemma quo_2_bounds:
  assumes "left \<le> right"
  shows "left \<le> quo (left + right) 2" and "quo (left + right) 2 \<le> right"
proof -
  have "quo (left + right) 2 = (if 0 \<le> left + right then (left + right) div 2
      else - ((- (left + right)) div 2))"
    by (simp add: quo_def sgn_if)
  with assms show "left \<le> quo (left + right) 2" and "quo (left + right) 2 \<le> right"
    by (auto split: if_splits)
qed

text \<open>
  The loop of \<^verbatim>\<open>findChunkIndexForOffset\<close>, on the loop variables \<open>left\<close> and
  \<open>right\<close>. Reading \<^verbatim>\<open>r.seekTable[middle]\<close> outside the slice panics in Go; falling
  out of the loop reaches \<^verbatim>\<open>panic("Unreachable code")\<close>.
\<close>

function findChunkIndexForOffset_loop ::
  "indirectObjectEntry list \<Rightarrow> int64 \<Rightarrow> int \<Rightarrow> int \<Rightarrow> int outcome" where
  "findChunkIndexForOffset_loop tbl offset left right =
     (if left \<le> right then
        (let middle = quo (left + right) 2 in
         if middle < 0 \<or> int (length tbl) \<le> middle then Panic PanicIndexOutOfRange
         else if offset <s Start (tbl ! nat middle) then
           findChunkIndexForOffset_loop tbl offset left (middle - 1)
         else if endOffset (tbl ! nat middle) \<le>s offset then
           findChunkIndexForOffset_loop tbl offset (middle + 1) right
         else Returns middle)
      else Panic PanicUnreachableCode)"
  by pat_completeness auto
termination
proof (relation "measure (\<lambda>(tbl, offset, left, right). nat (right - left + 1))")
  show "wf (measure (\<lambda>(tbl, offset, left, right). nat (right - left + 1)))"
    by simp
next
  fix tbl :: "indirectObjectEntry list" and offset :: int64 and left right middle :: int
  assume "left \<le> right" and m: "middle = quo (left + right) 2"
  then have "left \<le> middle" "middle \<le> right"
    using quo_2_bounds [of left right] by simp_all
  then show "((tbl, offset, left, middle - 1), (tbl, offset, left, right))
      \<in> measure (\<lambda>(tbl, offset, left, right). nat (right - left + 1))"
    by simp
next
  fix tbl :: "indirectObjectEntry list" and offset :: int64 and left right middle :: int
  assume "left \<le> right" and m: "middle = quo (left + right) 2"
  then have "left \<le> middle" "middle \<le> right"
    using quo_2_bounds [of left right] by simp_all
  then show "((tbl, offset, middle + 1, right), (tbl, offset, left, right))
      \<in> measure (\<lambda>(tbl, offset, left, right). nat (right - left + 1))"
    by simp
qed

declare findChunkIndexForOffset_loop.simps [simp del]

definition findChunkIndexForOffset :: "objectReader \<Rightarrow> int64 \<Rightarrow> int outcome" where
  "findChunkIndexForOffset r offset =
     findChunkIndexForOffset_loop (seekTable r) offset 0 (int (length (seekTable r)) - 1)"

subsection \<open>openCurrentChunk and closeCurrentChunk\<close>

text \<open>
  \<^verbatim>\<open>r.repo.Open\<close> is a parameter of the reader's operations (\<open>repoOpen\<close>): the call
  panics, returns an error, or returns a reader. The reader it returns is seen through
  \<^verbatim>\<open>io.ReadFull\<close> only, so it is represented by the bytes its \<^verbatim>\<open>Read\<close> calls deliver
  and the error that ends them (\<open>EOF\<close> at the regular end of the object).
\<close>

type_synonym reader_contents = "byte list \<times> error"

type_synonym repo_open = "ObjectID \<Rightarrow> (error + reader_contents) outcome"

text \<open>
  \<^verbatim>\<open>io.ReadFull(rd, b)\<close> with \<^verbatim>\<open>len(b) = n\<close>: \<open>n\<close> bytes and no error when the reader
  delivers that many (none are asked of it when \<open>n = 0\<close>); otherwise the reader's error,
  with \<open>EOF\<close> after at least one byte turned into \<open>ErrUnexpectedEOF\<close>.
\<close>

definition ReadFull :: "reader_contents \<Rightarrow> nat \<Rightarrow> error + byte list" where
  "ReadFull rd n =
     (case rd of (bs, err) \<Rightarrow>
        if n \<le> length bs then Inr (take n bs)
        else if bs \<noteq> [] \<and> err = EOF then Inl ErrUnexpectedEOF
        else Inl err)"

text \<open>
  \<^verbatim>\<open>openCurrentChunk\<close> returns the error and leaves the reader as it was when the open or
  the read fails. Indexing the seek table outside its range panics, and so does
  \<^verbatim>\<open>make([]byte, st.Length)\<close> with a length that is negative or above the allocation
  limit of the runtime (\<open>maxAlloc\<close>, \<open>2 ^ 48\<close> bytes on the 64-bit platforms). Running
  out of memory below that limit ends the program and is outside the model.
\<close>

definition maxAlloc :: int where
  "maxAlloc = 2 ^ 48"

definition openCurrentChunk ::
  "repo_open \<Rightarrow> objectReader \<Rightarrow> (objectReader \<times> error option) outcome" where
  "openCurrentChunk repoOpen r =
     (if currentChunkIndex r < 0 \<or> int (length (seekTable r)) \<le> currentChunkIndex r
      then Panic PanicIndexOutOfRange
      else
        (let st = seekTable r ! nat (currentChunkIndex r) in
         case repoOpen (Object st) of
           Panic p \<Rightarrow> Panic p
         | Returns (Inl err) \<Rightarrow> Returns (r, Some err)
         | Returns (Inr blockData) \<Rightarrow>
             if Length st <s 0 \<or> maxAlloc < sint (Length st)
             then Panic PanicMakeSliceLenOutOfRange
             else
               (case ReadFull blockData (nat (sint (Length st))) of
                  Inl err \<Rightarrow> Returns (r, Some err)
                | Inr b \<Rightarrow>
                    Returns (r\<lparr>currentChunkData := Some b, currentChunkPosition := 0\<rparr>,
                             None))))"

definition closeCurrentChunk :: "objectReader \<Rightarrow> objectReader" where
  "closeCurrentChunk r = r\<lparr>currentChunkData := None\<rparr>"

subsection \<open>Read\<close>

text \<open>
  The result of \<^verbatim>\<open>Read\<close>: the reader afterwards, the bytes copied to the front of the
  buffer, and the pair \<^verbatim>\<open>(n, err)\<close> the call returns.
\<close>

type_synonym read_result = "objectReader \<times> byte list \<times> int \<times> error option"

definition Read_return :: "objectReader \<Rightarrow> byte list \<Rightarrow> int \<Rightarrow> read_result outcome" where
  "Read_return r copied readBytes =
     (if readBytes = 0 then Returns (r, copied, readBytes, Some EOF)
      else Returns (r, copied, readBytes, None))"

text \<open>
  The order in which the loop ends: \<open>remaining\<close> falls when bytes are copied; when it stays,
  the loop moves from an unopened chunk to the open chunk and on to the next chunk.
\<close>

definition Read_steps_left :: "objectReader \<Rightarrow> nat" where
  "Read_steps_left r =
     (case currentChunkData r of
        Some d \<Rightarrow> 2 * nat (int (length (seekTable r)) - currentChunkIndex r) + 1
      | None \<Rightarrow>
          if currentChunkIndex r < int (length (seekTable r))
          then 2 * nat (int (length (seekTable r)) - currentChunkIndex r) + 2 else 0)"

lemma openCurrentChunk_opened:
  assumes "openCurrentChunk repoOpen r = Returns (r', None)"
  shows "\<exists>b. r' = r\<lparr>currentChunkData := Some b, currentChunkPosition := 0\<rparr>"
  using assms
  by (auto simp: openCurrentChunk_def Let_def
      split: if_splits outcome.splits sum.splits prod.splits)

text \<open>
  The \<^verbatim>\<open>for remaining > 0\<close> loop of \<^verbatim>\<open>Read\<close> on its variables \<open>remaining\<close> and
  \<open>readBytes\<close>; \<open>copied\<close> collects what \<^verbatim>\<open>copy\<close> wrote to \<^verbatim>\<open>buffer[readBytes:]\<close>. The
  slice expression
  \<^verbatim>\<open>r.currentChunkData[r.currentChunkPosition:r.currentChunkPosition+toCopy]\<close> panics
  exactly when the chunk position lies outside the chunk.
\<close>

function Read_loop ::
  "repo_open \<Rightarrow> objectReader \<Rightarrow> nat \<Rightarrow> byte list \<Rightarrow> int \<Rightarrow> read_result outcome" where
  "Read_loop repoOpen r remaining copied readBytes =
     (if 0 < remaining then
        (case currentChunkData r of
           Some d \<Rightarrow>
             (let toCopy = int (length d) - currentChunkPosition r in
              if toCopy = 0 then
                Read_loop repoOpen
                  ((closeCurrentChunk r)\<lparr>currentChunkIndex := currentChunkIndex r + 1\<rparr>)
                  remaining copied readBytes
              else
                (let toCopy = (if int remaining < toCopy then int remaining else toCopy) in
                 if currentChunkPosition r < 0 \<or> int (length d) < currentChunkPosition r
                 then Panic PanicSliceBoundsOutOfRange
                 else
                   Read_loop repoOpen
                     (r\<lparr>currentChunkPosition := currentChunkPosition r + toCopy,
                        currentPosition := currentPosition r + word_of_int toCopy\<rparr>)
                     (remaining - nat toCopy)
                     (copied @ take (nat toCopy) (drop (nat (currentChunkPosition r)) d))
                     (readBytes + toCopy)))
         | None \<Rightarrow>
             if currentChunkIndex r < int (length (seekTable r)) then
               (case openCurrentChunk repoOpen r of
                  Panic p \<Rightarrow> Panic p
                | Returns (r', Some err) \<Rightarrow> Returns (r', copied, 0, Some err)
                | Returns (r', None) \<Rightarrow> Read_loop repoOpen r' remaining copied readBytes)
             else Read_return r copied readBytes)
      else Read_return r copied readBytes)"
  by pat_completeness auto

termination
proof (relation "measures [\<lambda>(repoOpen, r, remaining, copied, readBytes). remaining,
    \<lambda>(repoOpen, r, remaining, copied, readBytes). Read_steps_left r]")
  show "wf (measures [\<lambda>(repoOpen, r, remaining, copied, readBytes). remaining,
    \<lambda>(repoOpen, r, remaining, copied, readBytes). Read_steps_left r])"
    by simp
next
  fix repoOpen :: repo_open and r :: objectReader and remaining :: nat
    and copied :: "byte list" and readBytes :: int and d :: "byte list" and toCopy :: int
  assume "currentChunkData r = Some d"
  then show "((repoOpen,
        (closeCurrentChunk r)\<lparr>currentChunkIndex := currentChunkIndex r + 1\<rparr>,
        remaining, copied, readBytes),
       (repoOpen, r, remaining, copied, readBytes))
      \<in> measures [\<lambda>(repoOpen, r, remaining, copied, readBytes). remaining,
          \<lambda>(repoOpen, r, remaining, copied, readBytes). Read_steps_left r]"
    by (auto simp: Read_steps_left_def closeCurrentChunk_def)
next
  fix repoOpen :: repo_open and r :: objectReader and remaining :: nat
    and copied :: "byte list" and readBytes :: int and d :: "byte list" and x xa :: int
  assume "0 < remaining" and "x = int (length d) - currentChunkPosition r" and "x \<noteq> 0"
    and "xa = (if int remaining < x then int remaining else x)"
    and "\<not> (currentChunkPosition r < 0 \<or> int (length d) < currentChunkPosition r)"
  then have "0 < xa" by (auto split: if_splits)
  with \<open>0 < remaining\<close>
  show "((repoOpen,
        r\<lparr>currentChunkPosition := currentChunkPosition r + xa,
          currentPosition := currentPosition r + word_of_int xa\<rparr>,
        remaining - nat xa,
        copied @ take (nat xa) (drop (nat (currentChunkPosition r)) d), readBytes + xa),
       (repoOpen, r, remaining, copied, readBytes))
      \<in> measures [\<lambda>(repoOpen, r, remaining, copied, readBytes). remaining,
          \<lambda>(repoOpen, r, remaining, copied, readBytes). Read_steps_left r]"
    by simp
next
  fix repoOpen :: repo_open and r r' :: objectReader and remaining :: nat
    and copied :: "byte list" and readBytes :: int
    and x2 :: "objectReader \<times> error option" and y :: "error option"
  assume "currentChunkData r = None"
    and "currentChunkIndex r < int (length (seekTable r))"
    and "openCurrentChunk repoOpen r = Returns x2" and "(r', y) = x2" and "y = None"
  then obtain b where "r' = r\<lparr>currentChunkData := Some b, currentChunkPosition := 0\<rparr>"
    using openCurrentChunk_opened [of repoOpen r r'] by auto
  with \<open>currentChunkData r = None\<close> \<open>currentChunkIndex r < int (length (seekTable r))\<close>
  show "((repoOpen, r', remaining, copied, readBytes),
       (repoOpen, r, remaining, copied, readBytes))
      \<in> measures [\<lambda>(repoOpen, r, remaining, copied, readBytes). remaining,
          \<lambda>(repoOpen, r, remaining, copied, readBytes). Read_steps_left r]"
    by (simp add: Read_steps_left_def)
qed

declare Read_loop.simps [simp del]

definition Read :: "repo_open \<Rightarrow> objectReader \<Rightarrow> nat \<Rightarrow> read_result outcome" where
  "Read repoOpen r len_buffer = Read_loop repoOpen r len_buffer [] 0"

subsection \<open>Seek\<close>

text \<open>
  The result of \<^verbatim>\<open>Seek\<close>: the reader afterwards and the pair \<^verbatim>\<open>(position, err)\<close>.
  The call \<^verbatim>\<open>r.openCurrentChunk()\<close> in \<^verbatim>\<open>Seek\<close> is a statement: the error it returns is
  dropped, and the reader goes on as \<^verbatim>\<open>openCurrentChunk\<close> left it.
\<close>

type_synonym seek_result = "objectReader \<times> int64 \<times> error option"

function Seek :: "repo_open \<Rightarrow> objectReader \<Rightarrow> int64 \<Rightarrow> int \<Rightarrow> seek_result outcome" where
  "Seek repoOpen r offset whence =
     (if whence = 1 then Seek repoOpen r (currentPosition r + offset) 0
      else if whence = 2 then Seek repoOpen r (totalLength r + offset) 0
      else if offset <s 0 then Returns (r, - 1, Some ErrInvalidSeek)
      else
        (let offset = (if totalLength r <s offset then totalLength r else offset) in
         case findChunkIndexForOffset r offset of
           Panic p \<Rightarrow> Panic p
         | Returns index \<Rightarrow>
             (let chunkStartOffset = Start (seekTable r ! nat index);
                  r = (if index \<noteq> currentChunkIndex r
                       then (closeCurrentChunk r)\<lparr>currentChunkIndex := index\<rparr> else r)
              in
              case (if currentChunkData r = None then openCurrentChunk repoOpen r
                    else Returns (r, None)) of
                Panic p \<Rightarrow> Panic p
              | Returns (r, err) \<Rightarrow>
                  (let r = r\<lparr>currentChunkPosition := sint (offset - chunkStartOffset),
                               currentPosition := offset\<rparr>
                   in Returns (r, currentPosition r, None)))))"
  by pat_completeness auto
termination
  by (relation "measure (\<lambda>(repoOpen, r, offset, whence). if whence = 1 \<or> whence = 2 then 1 else 0)")
    auto

declare Seek.simps [simp del]

section \<open>Repository initialization (initialize.go)\<close>

record NewRepositoryOptions =
  UniqueID :: "byte list option"
  MetadataEncryptionAlgorithm :: string
  KeyDerivationAlgorithm :: string
  ObjectFormat :: string
  ObjectHMACSecret :: "byte list option"
  ObjectEncryptionKey :: "byte list option"
  Splitter :: string
  MinBlockSize :: int
  AvgBlockSize :: int
  MaxBlockSize :: int
  MaxPackedContentLength :: int
  MaxPackFileLength :: int
  noHMAC :: bool

text \<open>\<^verbatim>\<open>&NewRepositoryOptions{}\<close>: every field has its zero value.\<close>

definition zero_NewRepositoryOptions :: NewRepositoryOptions where
  "zero_NewRepositoryOptions =
     \<lparr>UniqueID = None, MetadataEncryptionAlgorithm = [], KeyDerivationAlgorithm = [],
      ObjectFormat = [], ObjectHMACSecret = None, ObjectEncryptionKey = None, Splitter = [],
      MinBlockSize = 0, AvgBlockSize = 0, MaxBlockSize = 0, MaxPackedContentLength = 0,
      MaxPackFileLength = 0, noHMAC = False\<rparr>"

text \<open>
  The structs of the packages \<^verbatim>\<open>auth\<close> and \<^verbatim>\<open>config\<close> that \<^verbatim>\<open>Initialize\<close> fills in, and
  the fields of \<^verbatim>\<open>MetadataManager\<close> it sets.
\<close>

record SecurityOptions =
  KeyDerivationAlgorithm :: string
  UniqueID :: "byte list"

record MetadataFormat =
  SecurityOptions :: SecurityOptions
  Version :: string
  EncryptionAlgorithm :: string

record RepositoryObjectFormat =
  Version :: int
  Splitter :: string
  ObjectFormat :: string
  HMACSecret :: "byte list option"
  MasterKey :: "byte list"
  MaxBlockSize :: int
  MinBlockSize :: int
  AvgBlockSize :: int
  MaxPackedContentLength :: int
  MaxPackFileLength :: int

record EncryptedRepositoryConfig =
  Format :: RepositoryObjectFormat

record 'w MetadataManager =
  storage :: "'w blob_Storage"
  format :: MetadataFormat
  masterKey :: "byte list"

text \<open>
  What \<^verbatim>\<open>Initialize\<close> takes from outside the files at hand: the block names and default
  identifiers (constants of the package), \<^verbatim>\<open>rand.Reader\<close> (\<open>'g\<close> is the state of the
  random source; the function gives the bytes one \<^verbatim>\<open>io.ReadFull\<close> obtains from it), the
  credentials' \<^verbatim>\<open>GetMasterKey\<close>, \<^verbatim>\<open>json.Marshal\<close> on the metadata format, and the methods
  \<^verbatim>\<open>initCrypto\<close> and \<^verbatim>\<open>putJSON\<close> of \<^verbatim>\<open>MetadataManager\<close>.
\<close>

record ('w, 'g) initialize_env =
  MetadataBlockPrefix :: string
  formatBlockID :: string
  repositoryConfigBlockID :: string
  DefaultKeyDerivationAlgorithm :: string
  DefaultMetadataEncryptionAlgorithm :: string
  DefaultObjectSplitter :: string
  DefaultObjectFormat :: string
  rand_Reader :: "'g \<Rightarrow> nat \<Rightarrow> byte list \<times> 'g"
  GetMasterKey :: "SecurityOptions \<Rightarrow> byte list \<times> error option"
  json_Marshal :: "MetadataFormat \<Rightarrow> byte list \<times> error option"
  initCrypto :: "'w MetadataManager \<Rightarrow> error option \<times> 'w MetadataManager"
  putJSON :: "'w MetadataManager \<Rightarrow> 'w \<Rightarrow> string \<Rightarrow> EncryptedRepositoryConfig \<Rightarrow>
    error option \<times> 'w"

text \<open>
  \<^verbatim>\<open>randomBytes\<close> makes a slice of \<open>n\<close> zero bytes and lets \<^verbatim>\<open>io.ReadFull\<close> fill it, whose
  result it ignores: the slice has \<open>n\<close> bytes in any case.
\<close>

definition randomBytes :: "('w, 'g) initialize_env \<Rightarrow> 'g \<Rightarrow> nat \<Rightarrow> byte list \<times> 'g" where
  "randomBytes env g n =
     (case rand_Reader env g n of (bs, g) \<Rightarrow> (take n (bs @ replicate n 0), g))"

definition applyDefaultInt :: "int \<Rightarrow> int \<Rightarrow> int" where
  "applyDefaultInt v def = (if v = 0 then def else v)"

definition applyDefaultString :: "string \<Rightarrow> string \<Rightarrow> string" where
  "applyDefaultString v def = (if v = [] then def else v)"

definition applyDefaultRandomBytes ::
  "('w, 'g) initialize_env \<Rightarrow> 'g \<Rightarrow> byte list option \<Rightarrow> nat \<Rightarrow> byte list \<times> 'g" where
  "applyDefaultRandomBytes env g b n =
     (case b of None \<Rightarrow> randomBytes env g n | Some b \<Rightarrow> (b, g))"

definition metadataFormatFromOptions ::
  "('w, 'g) initialize_env \<Rightarrow> 'g \<Rightarrow> NewRepositoryOptions \<Rightarrow> MetadataFormat \<times> 'g" where
  "metadataFormatFromOptions env g opt =
     (case applyDefaultRandomBytes env g (NewRepositoryOptions.UniqueID opt) 32 of
        (uniqueID, g) \<Rightarrow>
          (\<lparr>SecurityOptions =
              \<lparr>SecurityOptions.KeyDerivationAlgorithm =
                 applyDefaultString (NewRepositoryOptions.KeyDerivationAlgorithm opt)
                   (DefaultKeyDerivationAlgorithm env),
               SecurityOptions.UniqueID = uniqueID\<rparr>,
            MetadataFormat.Version = ''1'',
            EncryptionAlgorithm =
              applyDefaultString (MetadataEncryptionAlgorithm opt)
                (DefaultMetadataEncryptionAlgorithm env)\<rparr>, g))"

definition repositoryObjectFormatFromOptions ::
  "('w, 'g) initialize_env \<Rightarrow> 'g \<Rightarrow> NewRepositoryOptions \<Rightarrow> RepositoryObjectFormat \<times> 'g" where
  "repositoryObjectFormatFromOptions env g opt =
     (case applyDefaultRandomBytes env g (ObjectHMACSecret opt) 32 of
        (hmacSecret, g) \<Rightarrow>
          (case applyDefaultRandomBytes env g (ObjectEncryptionKey opt) 32 of
             (encryptionKey, g) \<Rightarrow>
               (let f =
                  \<lparr>RepositoryObjectFormat.Version = 1,
                   Splitter = applyDefaultString (NewRepositoryOptions.Splitter opt)
                     (DefaultObjectSplitter env),
                   ObjectFormat = applyDefaultString (NewRepositoryOptions.ObjectFormat opt)
                     (DefaultObjectFormat env),
                   HMACSecret = Some hmacSecret,
                   MasterKey = encryptionKey,
                   MaxBlockSize =
                     applyDefaultInt (NewRepositoryOptions.MaxBlockSize opt) (20 * 2 ^ 20),
                   MinBlockSize =
                     applyDefaultInt (NewRepositoryOptions.MinBlockSize opt) (10 * 2 ^ 20),
                   AvgBlockSize =
                     applyDefaultInt (NewRepositoryOptions.AvgBlockSize opt) (16 * 2 ^ 20),
                   MaxPackedContentLength =
                     applyDefaultInt (NewRepositoryOptions.MaxPackedContentLength opt)
                       (4 * 2 ^ 20),
                   MaxPackFileLength =
                     applyDefaultInt (NewRepositoryOptions.MaxPackFileLength opt)
                       (20 * 2 ^ 20)\<rparr>
                in (if noHMAC opt then f\<lparr>HMACSecret := None\<rparr> else f, g))))"

text \<open>
  \<^verbatim>\<open>Initialize\<close> returns its error; the model returns with it the blob store and the
  random source as the call leaves them. The first access to the blob store is the
  \<^verbatim>\<open>PutBlock\<close> of the format block.
\<close>

definition Initialize ::
  "('w, 'g) initialize_env \<Rightarrow> 'w blob_Storage \<Rightarrow> 'w \<Rightarrow> 'g \<Rightarrow> NewRepositoryOptions option \<Rightarrow>
     error option \<times> 'w \<times> 'g" where
  "Initialize env st w g opt =
     (let opt = (case opt of None \<Rightarrow> zero_NewRepositoryOptions | Some opt \<Rightarrow> opt) in
      case metadataFormatFromOptions env g opt of
        (fmt, g) \<Rightarrow>
          (let mm = \<lparr>storage = st, format = fmt, masterKey = []\<rparr> in
           case GetMasterKey env (SecurityOptions (format mm)) of
             (key, err) \<Rightarrow>
               (let mm = mm\<lparr>masterKey := key\<rparr> in
                case err of
                  Some e \<Rightarrow> (Some e, w, g)
                | None \<Rightarrow>
                    (case json_Marshal env (format mm) of
                       (formatBytes, Some e) \<Rightarrow> (Some e, w, g)
                     | (formatBytes, None) \<Rightarrow>
                         (case PutBlock st w (MetadataBlockPrefix env @ formatBlockID env)
                                 formatBytes of
                            (Some e, w) \<Rightarrow> (Some e, w, g)
                          | (None, w) \<Rightarrow>
                              (case initCrypto env mm of
                                 (Some e, mm) \<Rightarrow> (Some (ErrUnableToInitializeCrypto e), w, g)
                               | (None, mm) \<Rightarrow>
                                   (case repositoryObjectFormatFromOptions env g opt of
                                      (f, g) \<Rightarrow>
                                        (let rc = \<lparr>Format = f\<rparr> in
                                         case putJSON env mm w (repositoryConfigBlockID env) rc of
                                           (Some e, w) \<Rightarrow> (Some e, w, g)
                                         | (None, w) \<Rightarrow> (None, w, g)))))))))"

section \<open>The object manager (object\_manager.go)\<close>

subsection \<open>Readers, statistics and collaborators\<close>

text \<open>
  The values of the interface \<^verbatim>\<open>ObjectReader\<close> that \<^verbatim>\<open>Open\<close> returns: a
  \<^verbatim>\<open>readerWithData\<close> (the data behind its \<^verbatim>\<open>bytes.Reader\<close> and its \<^verbatim>\<open>length\<close> field),
  an \<^verbatim>\<open>objectReader\<close>, or what \<^verbatim>\<open>newObjectSectionReader\<close> builds over a base reader.
\<close>

datatype ObjectReader =
    ReaderWithData "byte list" int64
  | IndirectReader objectReader
  | SectionReader int64 int64 ObjectReader

definition newObjectReaderWithData :: "byte list \<Rightarrow> ObjectReader" where
  "newObjectReaderWithData data = ReaderWithData data (of_nat (length data))"

text \<open>The counters of \<^verbatim>\<open>Stats\<close> that the object manager adds to.\<close>

record Stats =
  HashedBlocks :: int32
  HashedBytes :: int64
  CheckedBlocks :: int32
  PresentBlocks :: int32
  EncryptedBytes :: int64
  WrittenBlocks :: int32
  WrittenBytes :: int64
  ReadBlocks :: int32
  ReadBytes :: int64
  DecryptedBytes :: int64
  ValidBlocks :: int32
  InvalidBlocks :: int32

text \<open>
  The other collaborators of the object manager, each a record of its methods like
  \<open>blob_Storage\<close>; \<open>'w\<close> is the state behind the blob store, the block-size cache and
  the pack index.
\<close>

record objectFormatter =
  ComputeObjectID :: "byte list \<Rightarrow> ObjectID"
  Encrypt :: "byte list \<Rightarrow> ObjectID \<Rightarrow> int \<Rightarrow> byte list \<times> error option"
  Decrypt :: "byte list \<Rightarrow> ObjectID \<Rightarrow> int \<Rightarrow> byte list \<times> error option"

record 'w packManager =
  enabled :: "'w \<Rightarrow> bool"
  AddToPack :: "'w \<Rightarrow> string \<Rightarrow> string \<Rightarrow> byte list \<Rightarrow> (ObjectID \<times> error option) \<times> 'w"
  blockIDToPackSection :: "'w \<Rightarrow> string \<Rightarrow> (ObjectSection \<times> bool \<times> error option) \<times> 'w"

record 'w blockSizeCache =
  getSize :: "'w \<Rightarrow> string \<Rightarrow> (int64 \<times> error option) \<times> 'w"

text \<open>
  The calls the object manager makes to its collaborators, with their arguments. The
  model keeps them in order in the field \<open>calls\<close>, so that a theorem can say which calls
  a path makes; the field has no counterpart in the source.
\<close>

datatype call =
    Call_AddToPack string string "byte list"
  | Call_getSize string
  | Call_Encrypt "byte list" ObjectID int
  | Call_PutBlock string "byte list"
  | Call_blockIDToPackSection string
  | Call_GetBlock string int64 int64
  | Call_Decrypt "byte list" ObjectID int

text \<open>
  \<^verbatim>\<open>ObjectManager\<close>. \<open>world\<close> is the state behind the collaborators. The write-back
  fields are left out: no code at hand starts a write-back, so \<^verbatim>\<open>r.writeBackWG.Wait()\<close>
  returns at once.
\<close>

record 'w ObjectManager =
  stats :: Stats
  storage :: "'w blob_Storage"
  format :: RepositoryObjectFormat
  formatter :: objectFormatter
  packMgr :: "'w packManager"
  blockSizeCache :: "'w blockSizeCache"
  world :: 'w
  calls :: "call list"

definition called :: "call \<Rightarrow> 'w ObjectManager \<Rightarrow> 'w ObjectManager" where
  "called c r = r\<lparr>calls := calls r @ [c]\<rparr>"

subsection \<open>hashEncryptAndWrite\<close>

definition hashEncryptAndWrite ::
  "'w ObjectManager \<Rightarrow> string \<Rightarrow> byte list option \<Rightarrow> string \<Rightarrow> bool \<Rightarrow>
     (ObjectID \<times> error option) \<times> 'w ObjectManager" where
  "hashEncryptAndWrite r packGroup buffer prefix disablePacking =
     (let data = (case buffer of None \<Rightarrow> [] | Some b \<Rightarrow> b);
          objectID = ComputeObjectID (formatter r) data;
          objectID = ObjectID (prefix @ StorageBlock objectID) (Indirect objectID)
                       (Section objectID) (BinaryContent objectID) (TextContent objectID);
          r = r\<lparr>stats := (stats r)\<lparr>HashedBlocks := HashedBlocks (stats r) + 1\<rparr>\<rparr>;
          r = r\<lparr>stats := (stats r)\<lparr>HashedBytes := HashedBytes (stats r) + of_nat (length data)\<rparr>\<rparr>
      in
      if \<not> disablePacking \<and> enabled (packMgr r) (world r) \<and>
         0 < MaxPackedContentLength (format r) \<and>
         int (length data) \<le> MaxPackedContentLength (format r)
      then
        (case AddToPack (packMgr r) (world r) packGroup (prefix @ StorageBlock objectID) data of
           ((packOID, err), w) \<Rightarrow>
             ((packOID, err),
              called (Call_AddToPack packGroup (prefix @ StorageBlock objectID) data)
                (r\<lparr>world := w\<rparr>)))
      else
        (case getSize (blockSizeCache r) (world r) (StorageBlock objectID) of
           ((blockSize, err), w) \<Rightarrow>
             (let r = called (Call_getSize (StorageBlock objectID)) (r\<lparr>world := w\<rparr>);
                  r = r\<lparr>stats := (stats r)\<lparr>CheckedBlocks := CheckedBlocks (stats r) + 1\<rparr>\<rparr>
              in
              if err = None \<and> blockSize = of_nat (length data) then
                ((objectID, None),
                 r\<lparr>stats := (stats r)\<lparr>PresentBlocks := PresentBlocks (stats r) + 1\<rparr>\<rparr>)
              else if err \<noteq> None \<and> err \<noteq> Some ErrBlockNotFound then
                ((NullObjectID, err), r)
              else
                (let r = r\<lparr>stats := (stats r)\<lparr>EncryptedBytes :=
                            EncryptedBytes (stats r) + of_nat (length data)\<rparr>\<rparr>
                 in
                 case Encrypt (formatter r) data objectID 0 of
                   (data, err) \<Rightarrow>
                     (let r = called (Call_Encrypt
                                (case buffer of None \<Rightarrow> [] | Some b \<Rightarrow> b) objectID 0) r
                      in
                      if err \<noteq> None then ((NullObjectID, err), r)
                      else
                        (let r = r\<lparr>stats := (stats r)\<lparr>WrittenBlocks :=
                                    WrittenBlocks (stats r) + 1\<rparr>\<rparr>;
                             r = r\<lparr>stats := (stats r)\<lparr>WrittenBytes :=
                                    WrittenBytes (stats r) + of_nat (length data)\<rparr>\<rparr>
                         in
                         case PutBlock (storage r) (world r) (StorageBlock objectID) data of
                           (err, w) \<Rightarrow>
                             (let r = called (Call_PutBlock (StorageBlock objectID) data)
                                        (r\<lparr>world := w\<rparr>)
                              in
                              if err \<noteq> None then ((NullObjectID, err), r)
                              else ((objectID, None), r))))))))"

subsection \<open>flattenListChunk\<close>

text \<open>
  \<^verbatim>\<open>jsonstream.NewReader\<close> (outside the files at hand) is a parameter: on a reader it
  returns an error, or a stream reader, which is represented by the entries its \<^verbatim>\<open>Read\<close>
  calls deliver and the error that ends them (\<open>EOF\<close> at the regular end of the stream).
  The loop of \<^verbatim>\<open>flattenListChunk\<close> appends the entries to its \<^verbatim>\<open>seekTable\<close> (here
  \<open>tbl\<close>); a nil slice is the empty list.
\<close>

type_synonym jsonstream_reader = "indirectObjectEntry list \<times> error"

fun flattenListChunk_loop ::
  "jsonstream_reader \<Rightarrow> indirectObjectEntry list \<Rightarrow> indirectObjectEntry list \<times> error option"
  where
  "flattenListChunk_loop ([], err) tbl =
     (if err = EOF then (tbl, None) else ([], Some err))"
| "flattenListChunk_loop (oe # rest, err) tbl =
     flattenListChunk_loop (rest, err) (tbl @ [oe])"

definition flattenListChunk ::
  "(ObjectReader \<Rightarrow> jsonstream_reader \<times> error option) \<Rightarrow> ObjectReader \<Rightarrow>
     indirectObjectEntry list \<times> error option" where
  "flattenListChunk jsonstream_NewReader rawReader =
     (case jsonstream_NewReader rawReader of
        (pr, Some err) \<Rightarrow> ([], Some err)
      | (pr, None) \<Rightarrow> flattenListChunk_loop pr [])"

subsection \<open>verifyChecksum and newRawReader\<close>

text \<open>\<^verbatim>\<open>strings.HasSuffix\<close>.\<close>

definition HasSuffix :: "string \<Rightarrow> string \<Rightarrow> bool" where
  "HasSuffix s suffix =
     (length suffix \<le> length s \<and> drop (length s - length suffix) s = suffix)"

definition verifyChecksum ::
  "'w ObjectManager \<Rightarrow> byte list \<Rightarrow> string \<Rightarrow> error option \<times> 'w ObjectManager" where
  "verifyChecksum r data blockID =
     (let expected = ComputeObjectID (formatter r) data in
      if \<not> HasSuffix blockID (StorageBlock expected) then
        (Some (ErrInvalidChecksum blockID (StorageBlock expected)),
         r\<lparr>stats := (stats r)\<lparr>InvalidBlocks := InvalidBlocks (stats r) + 1\<rparr>\<rparr>)
      else
        (None, r\<lparr>stats := (stats r)\<lparr>ValidBlocks := ValidBlocks (stats r) + 1\<rparr>\<rparr>))"

definition newRawReader ::
  "'w ObjectManager \<Rightarrow> ObjectID \<Rightarrow> (ObjectReader option \<times> error option) \<times> 'w ObjectManager"
  where
  "newRawReader r objectID =
     (case blockIDToPackSection (packMgr r) (world r) (StorageBlock objectID) of
        ((p, ok, err), w) \<Rightarrow>
          (let r = called (Call_blockIDToPackSection (StorageBlock objectID)) (r\<lparr>world := w\<rparr>)
           in
           case err of
             Some e \<Rightarrow> ((None, Some e), r)
           | None \<Rightarrow>
               (let blockName = (if ok then StorageBlock (Base p) else StorageBlock objectID);
                    blockOffset = (if ok then SectionStart p else 0);
                    blockLength = (if ok then SectionLength p else - 1);
                    underlyingObjectID = (if ok then Base p else objectID);
                    decryptSkip = (if ok then sint (SectionStart p) else 0)
                in
                case GetBlock (storage r) (world r) blockName blockOffset blockLength of
                  ((payload, err), w) \<Rightarrow>
                    (let r = called (Call_GetBlock blockName blockOffset blockLength)
                               (r\<lparr>world := w\<rparr>)
                     in
                     case err of
                       Some e \<Rightarrow> ((None, Some e), r)
                     | None \<Rightarrow>
                         (let r = r\<lparr>stats := (stats r)\<lparr>ReadBlocks :=
                                     ReadBlocks (stats r) + 1\<rparr>\<rparr>;
                              r = r\<lparr>stats := (stats r)\<lparr>ReadBytes :=
                                     ReadBytes (stats r) + of_nat (length payload)\<rparr>\<rparr>
                          in
                          case Decrypt (formatter r) payload underlyingObjectID decryptSkip of
                            (plain, err) \<Rightarrow>
                              (let r = called (Call_Decrypt payload underlyingObjectID
                                          decryptSkip) r;
                                   r = r\<lparr>stats := (stats r)\<lparr>DecryptedBytes :=
                                          DecryptedBytes (stats r) + of_nat (length plain)\<rparr>\<rparr>
                               in
                               case err of
                                 Some e \<Rightarrow> ((None, Some e), r)
                               | None \<Rightarrow>
                                   (case verifyChecksum r plain (StorageBlock objectID) of
                                      (Some e, r) \<Rightarrow> ((None, Some e), r)
                                    | (None, r) \<Rightarrow>
                                        ((Some (newObjectReaderWithData plain), None),
                                         r))))))))"

subsection \<open>Open\<close>

text \<open>
  \<^verbatim>\<open>newObjectSectionReader\<close> (outside the files at hand) is the second parameter of
  \<^verbatim>\<open>Open\<close>. The branches are tried in the order of the source: section, indirect,
  binary content, text content, raw. In the indirect branch \<^verbatim>\<open>defer rd.Close()\<close> panics
  on a nil reader, and \<^verbatim>\<open>seekTable[len(seekTable)-1]\<close> panics when the seek table is
  empty.
\<close>

record open_externals =
  jsonstream_NewReader :: "ObjectReader \<Rightarrow> jsonstream_reader \<times> error option"
  newObjectSectionReader ::
    "int64 \<Rightarrow> int64 \<Rightarrow> ObjectReader option \<Rightarrow> ObjectReader option \<times> error option"

type_synonym 'w open_result =
  "((ObjectReader option \<times> error option) \<times> 'w ObjectManager) outcome"

fun Open :: "open_externals \<Rightarrow> 'w ObjectManager \<Rightarrow> ObjectID \<Rightarrow> 'w open_result" where
  "Open ext r (ObjectID sb ind (Some (ObjectSection base sectionStart sectionLength)) bin txt) =
     (case Open ext r base of
        Panic p \<Rightarrow> Panic p
      | Returns ((baseReader, Some err), r) \<Rightarrow>
          Returns ((None, Some (ErrCannotCreateBaseReader base err)), r)
      | Returns ((baseReader, None), r) \<Rightarrow>
          Returns (newObjectSectionReader ext sectionStart sectionLength baseReader, r))"
| "Open ext r (ObjectID sb (Some ind) None bin txt) =
     (case Open ext r ind of
        Panic p \<Rightarrow> Panic p
      | Returns ((rd, Some err), r) \<Rightarrow> Returns ((None, Some err), r)
      | Returns ((None, None), r) \<Rightarrow> Panic PanicNilDereference
      | Returns ((Some rd, None), r) \<Rightarrow>
          (case flattenListChunk (jsonstream_NewReader ext) rd of
             (tbl, Some err) \<Rightarrow> Returns ((None, Some err), r)
           | (tbl, None) \<Rightarrow>
               if int (length tbl) - 1 < 0 then Panic PanicIndexOutOfRange
               else
                 (let total = endOffset (tbl ! nat (int (length tbl) - 1))
                  in
                  Returns ((Some (IndirectReader
                      \<lparr>seekTable = tbl, currentPosition = 0,
                       totalLength = total, currentChunkIndex = 0,
                       currentChunkData = None, currentChunkPosition = 0\<rparr>), None), r))))"
| "Open ext r (ObjectID sb None None (Some b) txt) =
     Returns ((Some (newObjectReaderWithData b), None), r)"
| "Open ext r (ObjectID sb None None None txt) =
     (if 0 < length txt then
        Returns ((Some (newObjectReaderWithData (map of_char txt)), None), r)
      else Returns (newRawReader r (ObjectID sb None None None txt)))"

section \<open>Well-formed seek tables and example data\<close>

text \<open>
  The invariant of an indirect object's entries: each entry starts where the one before
  it ends, and the starts ascend strictly.
\<close>

fun contiguous_ascending :: "indirectObjectEntry list \<Rightarrow> bool" where
  "contiguous_ascending [] = True"
| "contiguous_ascending [e] = True"
| "contiguous_ascending (e1 # e2 # es) =
     (sint (Start e2) = sint (Start e1) + sint (Length e1) \<and> Start e1 <s Start e2 \<and>
      contiguous_ascending (e2 # es))"

text \<open>A reader over two chunks of 10 and 5 bytes, as \<^verbatim>\<open>Open\<close> builds it.\<close>

definition two_chunk_reader :: objectReader where
  "two_chunk_reader =
     \<lparr>seekTable = [\<lparr>Start = 0, Length = 10, Object = ObjectID ''a'' None None None []\<rparr>,
                   \<lparr>Start = 10, Length = 5, Object = ObjectID ''b'' None None None []\<rparr>],
      currentPosition = 0, totalLength = 15, currentChunkIndex = 0,
      currentChunkData = None, currentChunkPosition = 0\<rparr>"

text \<open>
  The invariants of the seek table of a reader: the table is not empty, its first entry
  starts at 0, its entries are contiguous and strictly ascending, and the end of the last
  entry, with a length that is not negative, is the total length.
\<close>

definition seekTable_invariants :: "objectReader \<Rightarrow> bool" where
  "seekTable_invariants r =
     (seekTable r \<noteq> [] \<and> Start (hd (seekTable r)) = 0 \<and>
      contiguous_ascending (seekTable r) \<and>
      0 \<le>s Length (last (seekTable r)) \<and>
      sint (totalLength r) =
        sint (Start (last (seekTable r))) + sint (Length (last (seekTable r))))"

text \<open>
  The state of a reader between calls, as \<^verbatim>\<open>Open\<close> sets it up and the operations keep
  it: the chunk index lies in the table or just behind it; chunk data, when held, is the
  whole chunk at the index, and the position is the start of that chunk plus the chunk
  position; with no chunk data the position is the start of the chunk at the index, or the
  total length behind the last chunk. \<open>chunks_available\<close> says that every chunk of the
  table can be opened and delivers at least the bytes of its entry, which fit the
  allocation limit.
\<close>

definition reader_consistent :: "objectReader \<Rightarrow> bool" where
  "reader_consistent r =
     (seekTable_invariants r \<and> 0 \<le> currentChunkIndex r \<and>
      currentChunkIndex r \<le> int (length (seekTable r)) \<and>
      (case currentChunkData r of
         Some d \<Rightarrow>
           currentChunkIndex r < int (length (seekTable r)) \<and>
           int (length d) = sint (Length (seekTable r ! nat (currentChunkIndex r))) \<and>
           0 \<le> currentChunkPosition r \<and> currentChunkPosition r \<le> int (length d) \<and>
           sint (currentPosition r) =
             sint (Start (seekTable r ! nat (currentChunkIndex r))) + currentChunkPosition r
       | None \<Rightarrow>
           if currentChunkIndex r < int (length (seekTable r))
           then currentPosition r = Start (seekTable r ! nat (currentChunkIndex r))
           else currentPosition r = totalLength r))"

definition chunks_available :: "repo_open \<Rightarrow> indirectObjectEntry list \<Rightarrow> bool" where
  "chunks_available repoOpen tbl =
     (\<forall>e \<in> set tbl. \<exists>bs err. repoOpen (Object e) = Returns (Inr (bs, err)) \<and>
        nat (sint (Length e)) \<le> length bs \<and> sint (Length e) \<le> maxAlloc)"

text \<open>
  A reader over one chunk of 10 bytes, a repository whose chunks cannot be fetched, and one
  whose chunks are 10 zero bytes.
\<close>

definition one_chunk_reader :: objectReader where
  "one_chunk_reader =
     \<lparr>seekTable = [\<lparr>Start = 0, Length = 10, Object = ObjectID ''a'' None None None []\<rparr>],
      currentPosition = 0, totalLength = 10, currentChunkIndex = 0,
      currentChunkData = None, currentChunkPosition = 0\<rparr>"

definition failing_repoOpen :: repo_open where
  "failing_repoOpen oid = Returns (Inl (ErrOther ''fetch failed''))"

definition zeros_repoOpen :: repo_open where
  "zeros_repoOpen oid = Returns (Inr (replicate 10 0, EOF))"

text \<open>
  An object manager over a blob store that is a map from block names to bytes: a put
  replaces the block, the block-size cache reports the length of the stored block, the
  formatter does not encrypt and knows two block names, the pack manager names the packed
  object after the block name it is given.
\<close>

type_synonym example_store = "string \<Rightarrow> byte list option"

definition example_storage :: "example_store blob_Storage" where
  "example_storage =
     \<lparr>PutBlock = (\<lambda>w name data. (None, w(name \<mapsto> data))),
      GetBlock = (\<lambda>w name off len.
         case w name of None \<Rightarrow> (([], Some ErrBlockNotFound), w)
         | Some data \<Rightarrow> ((data, None), w))\<rparr>"

definition example_formatter :: objectFormatter where
  "example_formatter =
     \<lparr>ComputeObjectID = (\<lambda>data.
         ObjectID (if data = [1] then ''one'' else ''other'') None None None []),
      Encrypt = (\<lambda>data oid skip. (data, None)),
      Decrypt = (\<lambda>data oid skip. (data, None))\<rparr>"

definition example_packMgr :: "example_store packManager" where
  "example_packMgr =
     \<lparr>enabled = (\<lambda>w. True),
      AddToPack = (\<lambda>w packGroup name data. ((ObjectID name None None None [], None), w)),
      blockIDToPackSection = (\<lambda>w name. ((ObjectSection NullObjectID 0 0, False, None), w))\<rparr>"

definition example_blockSizeCache :: "example_store blockSizeCache" where
  "example_blockSizeCache =
     \<lparr>getSize = (\<lambda>w name.
         case w name of None \<Rightarrow> ((0, Some ErrBlockNotFound), w)
         | Some data \<Rightarrow> ((of_nat (length data), None), w))\<rparr>"

definition failing_blockSizeCache :: "example_store blockSizeCache" where
  "failing_blockSizeCache = \<lparr>getSize = (\<lambda>w name. ((0, Some (ErrOther ''timeout'')), w))\<rparr>"

definition zero_Stats :: Stats where
  "zero_Stats =
     \<lparr>HashedBlocks = 0, HashedBytes = 0, CheckedBlocks = 0, PresentBlocks = 0,
      EncryptedBytes = 0, WrittenBlocks = 0, WrittenBytes = 0, ReadBlocks = 0,
      ReadBytes = 0, DecryptedBytes = 0, ValidBlocks = 0, InvalidBlocks = 0\<rparr>"

definition example_format :: RepositoryObjectFormat where
  "example_format =
     \<lparr>RepositoryObjectFormat.Version = 1, Splitter = ''FIXED'', ObjectFormat = ''PLAIN'',
      HMACSecret = None, MasterKey = [], MaxBlockSize = 100, MinBlockSize = 10,
      AvgBlockSize = 50, MaxPackedContentLength = 16, MaxPackFileLength = 100\<rparr>"

definition example_manager :: "example_store \<Rightarrow> example_store ObjectManager" where
  "example_manager w =
     \<lparr>stats = zero_Stats, storage = example_storage, format = example_format,
      formatter = example_formatter, packMgr = example_packMgr,
      blockSizeCache = example_blockSizeCache, world = w, calls = []\<rparr>"

definition populated_store :: example_store where
  "populated_store = Map.empty(''Pone'' \<mapsto> [7])"

text \<open>
  A formatter whose \<^verbatim>\<open>Encrypt\<close> returns a ciphertext one byte longer than the data, a manager
  with that formatter, and a blob store that holds a block of two bytes under the name of
  the chunk \<open>[1]\<close>.
\<close>

definition expanding_formatter :: objectFormatter where
  "expanding_formatter =
     \<lparr>ComputeObjectID = (\<lambda>data.
         ObjectID (if data = [1] then ''one'' else ''other'') None None None []),
      Encrypt = (\<lambda>data oid skip. (data @ [0], None)),
      Decrypt = (\<lambda>data oid skip. (butlast data, None))\<rparr>"

definition expanding_manager :: "example_store \<Rightarrow> example_store ObjectManager" where
  "expanding_manager w =
     \<lparr>stats = zero_Stats, storage = example_storage, format = example_format,
      formatter = expanding_formatter, packMgr = example_packMgr,
      blockSizeCache = example_blockSizeCache, world = w, calls = []\<rparr>"

definition two_byte_store :: example_store where
  "two_byte_store = Map.empty(''Pone'' \<mapsto> [9, 9])"

definition stored_blocks :: example_store where
  "stored_blocks = Map.empty(''Pone'' \<mapsto> [1], ''Pbad'' \<mapsto> [2])"

definition example_externals :: open_externals where
  "example_externals =
     \<lparr>jsonstream_NewReader = (\<lambda>rd.
         case rd of ReaderWithData data n \<Rightarrow>
           (if data = [] then (([], EOF), None) else (([], EOF), Some (ErrOther ''bad stream'')))
         | _ \<Rightarrow> (([], EOF), Some (ErrOther ''bad stream''))),
      newObjectSectionReader = (\<lambda>start len base.
         case base of None \<Rightarrow> (None, Some (ErrOther ''no base''))
         | Some b \<Rightarrow> (Some (SectionReader start len b), None))\<rparr>"

text \<open>
  Collaborators of \<^verbatim>\<open>Initialize\<close> that all succeed, and a blob store that already holds a
  format block.
\<close>

definition example_initialize_env :: "(example_store, unit) initialize_env" where
  "example_initialize_env =
     \<lparr>MetadataBlockPrefix = ''VLT'', formatBlockID = ''format'',
      repositoryConfigBlockID = ''repo'', DefaultKeyDerivationAlgorithm = ''scrypt'',
      DefaultMetadataEncryptionAlgorithm = ''AES'', DefaultObjectSplitter = ''DYNAMIC'',
      DefaultObjectFormat = ''ENC'',
      rand_Reader = (\<lambda>g n. (replicate n 7, g)),
      GetMasterKey = (\<lambda>so. ([3], None)),
      json_Marshal = (\<lambda>f. (SecurityOptions.UniqueID (SecurityOptions f), None)),
      initCrypto = (\<lambda>mm. (None, mm)),
      putJSON = (\<lambda>mm w name rc.
         PutBlock (MetadataManager.storage mm) w (''VLT'' @ name) (MasterKey (Format rc)))\<rparr>"

definition initialized_store :: example_store where
  "initialized_store = Map.empty(''VLTformat'' \<mapsto> [0])"

section \<open>Properties of findChunkIndexForOffset\<close>

lemma sint_sum_eq:
  fixes a b c :: int64
  assumes "sint a + sint b = sint c"
  shows "a + b = c"
proof -
  have "word_of_int (sint a + sint b) = (word_of_int (sint c) :: int64)"
    using assms by simp
  then show ?thesis by simp
qed

lemma contiguous_ascending_nth:
  "contiguous_ascending tbl \<Longrightarrow> Suc i < length tbl \<Longrightarrow>
     sint (Start (tbl ! Suc i)) = sint (Start (tbl ! i)) + sint (Length (tbl ! i)) \<and>
     sint (Start (tbl ! i)) < sint (Start (tbl ! Suc i))"
proof (induction tbl arbitrary: i rule: contiguous_ascending.induct)
  case 1
  then show ?case by simp
next
  case (2 e)
  then show ?case by simp
next
  case (3 e1 e2 es)
  show ?case
  proof (cases i)
    case 0
    with "3.prems" show ?thesis by (simp add: word_sless_alt)
  next
    case (Suc k)
    with "3.prems" "3.IH" [of k] show ?thesis by simp
  qed
qed

lemma endOffset_nth:
  assumes "contiguous_ascending tbl" "Suc i < length tbl"
  shows "endOffset (tbl ! i) = Start (tbl ! Suc i)"
  using contiguous_ascending_nth [OF assms] by (simp add: endOffset_def sint_sum_eq)

lemma Start_strict_mono:
  assumes "contiguous_ascending tbl"
  shows "i < j \<Longrightarrow> j < length tbl \<Longrightarrow> sint (Start (tbl ! i)) < sint (Start (tbl ! j))"
proof (induction j)
  case 0
  then show ?case by simp
next
  case (Suc j)
  have step: "sint (Start (tbl ! j)) < sint (Start (tbl ! Suc j))"
    using contiguous_ascending_nth [OF assms, of j] Suc.prems by simp
  show ?case
  proof (cases "i = j")
    case True
    with step show ?thesis by simp
  next
    case False
    with Suc have "sint (Start (tbl ! i)) < sint (Start (tbl ! j))" by simp
    with step show ?thesis by simp
  qed
qed

lemma Start_mono:
  assumes "contiguous_ascending tbl" "i \<le> j" "j < length tbl"
  shows "sint (Start (tbl ! i)) \<le> sint (Start (tbl ! j))"
  using Start_strict_mono [OF assms(1), of i j] assms(2,3) by (cases "i = j") auto

lemma findChunkIndexForOffset_loop_finds:
  "contiguous_ascending tbl \<Longrightarrow> k < length tbl \<Longrightarrow>
   Start (tbl ! k) \<le>s offset \<Longrightarrow> offset <s endOffset (tbl ! k) \<Longrightarrow>
   0 \<le> left \<Longrightarrow> left \<le> int k \<Longrightarrow> int k \<le> right \<Longrightarrow> right < int (length tbl) \<Longrightarrow>
   findChunkIndexForOffset_loop tbl offset left right = Returns (int k)"
proof (induction tbl offset left right rule: findChunkIndexForOffset_loop.induct)
  case (1 tbl offset left right)
  note ca = \<open>contiguous_ascending tbl\<close>
  define middle where "middle = quo (left + right) 2"
  define m where "m = nat middle"
  have lr: "left \<le> right" using "1.prems" by simp
  have mid: "left \<le> middle" "middle \<le> right"
    using quo_2_bounds [OF lr] by (simp_all add: middle_def)
  have m: "middle = int m" "m < length tbl"
    using mid "1.prems" by (simp_all add: m_def)
  have lo: "sint (Start (tbl ! k)) \<le> sint offset"
    using "1.prems" by (simp add: word_sle_eq)
  have hi: "sint offset < sint (endOffset (tbl ! k))"
    using "1.prems" by (simp add: word_sless_alt)
  have unfold: "findChunkIndexForOffset_loop tbl offset left right =
     (if offset <s Start (tbl ! m) then
           findChunkIndexForOffset_loop tbl offset left (middle - 1)
      else if endOffset (tbl ! m) \<le>s offset then
           findChunkIndexForOffset_loop tbl offset (middle + 1) right
      else Returns middle)"
    using lr m mid "1.prems"
    by (subst findChunkIndexForOffset_loop.simps) (simp add: Let_def middle_def [symmetric] m_def)
  show ?case
  proof (cases "offset <s Start (tbl ! m)")
    case True
    have "k < m"
    proof (rule ccontr)
      assume "\<not> k < m"
      then have "sint (Start (tbl ! m)) \<le> sint (Start (tbl ! k))"
        using Start_mono [OF ca, of m k] "1.prems" by simp
      with lo True show False by (simp add: word_sless_alt)
    qed
    then have "int k \<le> middle - 1" using m by simp
    then have "findChunkIndexForOffset_loop tbl offset left (middle - 1) = Returns (int k)"
      using "1.IH"(1) [of middle] lr True m mid "1.prems" middle_def by simp
    with True unfold show ?thesis by simp
  next
    case False
    then have ge: "sint (Start (tbl ! m)) \<le> sint offset"
      by (simp add: word_sless_alt)
    show ?thesis
    proof (cases "endOffset (tbl ! m) \<le>s offset")
      case True
      have "m < k"
      proof (rule ccontr)
        assume "\<not> m < k"
        then consider "k = m" | "Suc k \<le> m" by linarith
        then show False
        proof cases
          case 1
          with hi True show False by (simp add: word_sle_eq)
        next
          case 2
          then have "endOffset (tbl ! k) = Start (tbl ! Suc k)"
            using endOffset_nth [OF ca, of k] m by simp
          moreover have "sint (Start (tbl ! Suc k)) \<le> sint (Start (tbl ! m))"
            using Start_mono [OF ca, of "Suc k" m] 2 m by simp
          ultimately show False using hi ge by simp
        qed
      qed
      then have "middle + 1 \<le> int k" using m by simp
      then have "findChunkIndexForOffset_loop tbl offset (middle + 1) right = Returns (int k)"
        using "1.IH"(2) [of middle] lr False True m mid "1.prems" middle_def by simp
      with False True unfold show ?thesis by simp
    next
      case notge: False
      then have lt: "sint offset < sint (endOffset (tbl ! m))"
        by (simp add: word_sle_eq)
      have "m = k"
      proof (rule ccontr)
        assume "m \<noteq> k"
        then consider "Suc m \<le> k" | "Suc k \<le> m" by linarith
        then show False
        proof cases
          case 1
          then have "endOffset (tbl ! m) = Start (tbl ! Suc m)"
            using endOffset_nth [OF ca, of m] "1.prems" by simp
          moreover have "sint (Start (tbl ! Suc m)) \<le> sint (Start (tbl ! k))"
            using Start_mono [OF ca, of "Suc m" k] 1 "1.prems" by simp
          ultimately show False using lt lo by simp
        next
          case 2
          then have "endOffset (tbl ! k) = Start (tbl ! Suc k)"
            using endOffset_nth [OF ca, of k] m by simp
          moreover have "sint (Start (tbl ! Suc k)) \<le> sint (Start (tbl ! m))"
            using Start_mono [OF ca, of "Suc k" m] 2 m by simp
          ultimately show False using hi ge by simp
        qed
      qed
      with False notge unfold m show ?thesis by simp
    qed
  qed
qed

lemma chunk_for_offset_exists:
  assumes ca: "contiguous_ascending tbl" and ne: "tbl \<noteq> []"
    and lo: "Start (tbl ! 0) \<le>s offset" and hi: "offset <s endOffset (last tbl)"
  shows "\<exists>k<length tbl. Start (tbl ! k) \<le>s offset \<and> offset <s endOffset (tbl ! k)"
proof -
  define S where "S = {i. i < length tbl \<and> sint (Start (tbl ! i)) \<le> sint offset}"
  have fin: "finite S" by (simp add: S_def)
  have "0 \<in> S" using ne lo by (simp add: S_def word_sle_eq)
  then have nonempty: "S \<noteq> {}" by auto
  define k where "k = Max S"
  have kS: "k \<in> S" unfolding k_def using fin nonempty by (rule Max_in)
  then have k: "k < length tbl" "sint (Start (tbl ! k)) \<le> sint offset"
    by (simp_all add: S_def)
  have "offset <s endOffset (tbl ! k)"
  proof (cases "Suc k < length tbl")
    case True
    have "Suc k \<notin> S"
    proof
      assume "Suc k \<in> S"
      then have "Suc k \<le> k" unfolding k_def using fin by (simp add: Max_ge)
      then show False by simp
    qed
    with True have "sint offset < sint (Start (tbl ! Suc k))" by (simp add: S_def)
    then show ?thesis
      using endOffset_nth [OF ca True] by (simp add: word_sless_alt)
  next
    case False
    with k have "k = length tbl - 1" by simp
    with ne hi show ?thesis by (simp add: last_conv_nth)
  qed
  with k show ?thesis by (auto simp: word_sle_eq)
qed

lemma sint_add_no_wrap:
  fixes a b off :: int64
  assumes "0 \<le> sint a" and "sint off < sint (a + b)"
  shows "sint off < sint a + sint b"
proof (cases "sint a + sint b < 2 ^ 63")
  case True
  have "- (2 ^ 63) \<le> sint b" using sint_ge [of b] by simp
  with assms(1) have "- (2 ^ 63) \<le> sint a + sint b" by linarith
  with True have "sint (a + b) = sint a + sint b"
    by (simp add: sint_word_ariths signed_take_bit_int_eq_self)
  with assms(2) show ?thesis by simp
next
  case False
  moreover have "sint off < 2 ^ 63" using sint_lt [of off] by simp
  ultimately show ?thesis by linarith
qed


text \<open>
  Claim C5. On a seek table whose entries are contiguous and strictly ascending by start,
  the first starting at 0, and for an offset with \<open>0 \<le> offset < totalLength\<close> (the total
  length being the end offset of the last entry, as \<^verbatim>\<open>Open\<close> sets it),
  \<^verbatim>\<open>findChunkIndexForOffset\<close> returns an index \<open>i\<close> of the table with
  \<open>Start \<le> offset < Start + Length\<close> at \<open>i\<close>, and no other index of the table has this
  property.
\<close>

theorem findChunkIndexForOffset_unique_index:
  assumes ca: "contiguous_ascending (seekTable r)"
    and ne: "seekTable r \<noteq> []"
    and first: "Start (hd (seekTable r)) = 0"
    and total: "totalLength r = endOffset (last (seekTable r))"
    and lo: "0 \<le>s offset" and hi: "offset <s totalLength r"
  shows "\<exists>i<length (seekTable r).
      findChunkIndexForOffset r offset = Returns (int i) \<and>
      sint (Start (seekTable r ! i)) \<le> sint offset \<and>
      sint offset < sint (Start (seekTable r ! i)) + sint (Length (seekTable r ! i)) \<and>
      (\<forall>j<length (seekTable r).
          sint (Start (seekTable r ! j)) \<le> sint offset \<and>
          sint offset < sint (Start (seekTable r ! j)) + sint (Length (seekTable r ! j))
          \<longrightarrow> j = i)"
proof -
  define tbl where "tbl = seekTable r"
  have ca': "contiguous_ascending tbl" and ne': "tbl \<noteq> []"
    using ca ne by (simp_all add: tbl_def)
  have start0: "Start (tbl ! 0) = 0"
    using first ne' by (simp add: tbl_def hd_conv_nth)
  have "Start (tbl ! 0) \<le>s offset" using lo start0 by simp
  moreover have "offset <s endOffset (last tbl)" using hi total by (simp add: tbl_def)
  ultimately obtain k where k: "k < length tbl" "Start (tbl ! k) \<le>s offset"
      "offset <s endOffset (tbl ! k)"
    using chunk_for_offset_exists [OF ca' ne'] by blast
  have found: "findChunkIndexForOffset r offset = Returns (int k)"
    unfolding findChunkIndexForOffset_def tbl_def [symmetric]
    using findChunkIndexForOffset_loop_finds [OF ca' k, of 0 "int (length tbl) - 1"] k(1)
    by simp
  have klo: "sint (Start (tbl ! k)) \<le> sint offset"
    using k(2) by (simp add: word_sle_eq)
  have khi: "sint offset < sint (endOffset (tbl ! k))"
    using k(3) by (simp add: word_sless_alt)
  have nonneg: "0 \<le> sint (Start (tbl ! k))"
    using Start_mono [OF ca', of 0 k] k(1) start0 by simp
  have kend: "sint offset < sint (Start (tbl ! k)) + sint (Length (tbl ! k))"
    using sint_add_no_wrap [OF nonneg] khi by (simp add: endOffset_def)
  have uniq: "j = k" if j: "j < length tbl" "sint (Start (tbl ! j)) \<le> sint offset"
      "sint offset < sint (Start (tbl ! j)) + sint (Length (tbl ! j))" for j
  proof (rule ccontr)
    assume "j \<noteq> k"
    then consider "Suc j \<le> k" | "Suc k \<le> j" by linarith
    then show False
    proof cases
      case 1
      then have "sint (Start (tbl ! Suc j)) = sint (Start (tbl ! j)) + sint (Length (tbl ! j))"
        using contiguous_ascending_nth [OF ca', of j] k(1) by simp
      moreover have "sint (Start (tbl ! Suc j)) \<le> sint (Start (tbl ! k))"
        using Start_mono [OF ca', of "Suc j" k] 1 k(1) by simp
      ultimately show False using j(3) klo by simp
    next
      case 2
      then have "endOffset (tbl ! k) = Start (tbl ! Suc k)"
        using endOffset_nth [OF ca', of k] j(1) by simp
      moreover have "sint (Start (tbl ! Suc k)) \<le> sint (Start (tbl ! j))"
        using Start_mono [OF ca', of "Suc k" j] 2 j(1) by simp
      ultimately show False using khi j(2) by simp
    qed
  qed
  show ?thesis
    unfolding tbl_def [symmetric]
    using k(1) found klo kend uniq by blast
qed

theorem findChunkIndexForOffset_unique_index_witness:
  "findChunkIndexForOffset two_chunk_reader 12 = Returns 1 \<and>
   contiguous_ascending (seekTable two_chunk_reader) \<and>
   (0::int64) \<le>s 12 \<and> 12 <s totalLength two_chunk_reader"
proof -
  have ca: "contiguous_ascending (seekTable two_chunk_reader)"
    by (simp add: two_chunk_reader_def word_sless_alt)
  have ne: "seekTable two_chunk_reader \<noteq> []"
    by (simp add: two_chunk_reader_def)
  have first: "Start (hd (seekTable two_chunk_reader)) = 0"
    by (simp add: two_chunk_reader_def)
  have total: "totalLength two_chunk_reader = endOffset (last (seekTable two_chunk_reader))"
    by (simp add: two_chunk_reader_def endOffset_def)
  have lo: "(0::int64) \<le>s 12" by (simp add: word_sle_eq)
  have hi: "(12::int64) <s totalLength two_chunk_reader"
    by (simp add: two_chunk_reader_def)
  obtain i where i: "i < length (seekTable two_chunk_reader)"
      "findChunkIndexForOffset two_chunk_reader 12 = Returns (int i)"
      "sint (Start (seekTable two_chunk_reader ! i)) \<le> sint (12::int64)"
    using findChunkIndexForOffset_unique_index [OF ca ne first total lo hi] by blast
  have "i = 1"
  proof (rule ccontr)
    assume "i \<noteq> 1"
    with i(1) have "i = 0" by (simp add: two_chunk_reader_def)
    moreover have "findChunkIndexForOffset two_chunk_reader 12 = Returns 1"
      by (simp add: findChunkIndexForOffset_def two_chunk_reader_def quo_def endOffset_def
          word_sless_alt word_sle_eq findChunkIndexForOffset_loop.simps)
    ultimately show False using i(2) by simp
  qed
  with i(2) ca lo hi show ?thesis by simp
qed

section \<open>Properties of Seek\<close>

lemma findChunkIndexForOffset_loop_Returns:
  "findChunkIndexForOffset_loop tbl offset left right = Returns m \<Longrightarrow>
   0 \<le> left \<Longrightarrow> right < int (length tbl) \<Longrightarrow>
   left \<le> m \<and> m \<le> right \<and> Start (tbl ! nat m) \<le>s offset \<and> offset <s endOffset (tbl ! nat m)"
proof (induction tbl offset left right rule: findChunkIndexForOffset_loop.induct)
  case (1 tbl offset left right)
  define middle where "middle = quo (left + right) 2"
  have lr: "left \<le> right"
    using "1.prems"(1) by (subst (asm) findChunkIndexForOffset_loop.simps) (simp split: if_splits)
  have mid: "left \<le> middle" "middle \<le> right"
    using quo_2_bounds [OF lr] by (simp_all add: middle_def)
  have unfold: "findChunkIndexForOffset_loop tbl offset left right =
     (if offset <s Start (tbl ! nat middle) then
           findChunkIndexForOffset_loop tbl offset left (middle - 1)
      else if endOffset (tbl ! nat middle) \<le>s offset then
           findChunkIndexForOffset_loop tbl offset (middle + 1) right
      else Returns middle)"
    using lr mid "1.prems"
    by (subst findChunkIndexForOffset_loop.simps) (simp add: Let_def middle_def [symmetric])
  show ?case
  proof (cases "offset <s Start (tbl ! nat middle)")
    case True
    then have "findChunkIndexForOffset_loop tbl offset left (middle - 1) = Returns m"
      using unfold "1.prems"(1) by simp
    then show ?thesis
      using "1.IH"(1) [of middle] lr True mid "1.prems" middle_def by simp
  next
    case False
    show ?thesis
    proof (cases "endOffset (tbl ! nat middle) \<le>s offset")
      case True
      then have "findChunkIndexForOffset_loop tbl offset (middle + 1) right = Returns m"
        using unfold False "1.prems"(1) by simp
      then show ?thesis
        using "1.IH"(2) [of middle] lr False True mid "1.prems" middle_def by simp
    next
      case notge: False
      then have "m = middle" using unfold False "1.prems"(1) by simp
      with False notge mid show ?thesis
        by (simp add: word_sless_alt word_sle_eq)
    qed
  qed
qed

lemma findChunkIndexForOffset_loop_outcomes:
  "0 \<le> left \<Longrightarrow> right < int (length tbl) \<Longrightarrow>
   findChunkIndexForOffset_loop tbl offset left right = Panic PanicUnreachableCode \<or>
   (\<exists>m. findChunkIndexForOffset_loop tbl offset left right = Returns m)"
proof (induction tbl offset left right rule: findChunkIndexForOffset_loop.induct)
  case (1 tbl offset left right)
  show ?case
  proof (cases "left \<le> right")
    case False
    then show ?thesis by (subst findChunkIndexForOffset_loop.simps) simp
  next
    case lr: True
    define middle where "middle = quo (left + right) 2"
    have mid: "left \<le> middle" "middle \<le> right"
      using quo_2_bounds [OF lr] by (simp_all add: middle_def)
    have unfold: "findChunkIndexForOffset_loop tbl offset left right =
       (if offset <s Start (tbl ! nat middle) then
             findChunkIndexForOffset_loop tbl offset left (middle - 1)
        else if endOffset (tbl ! nat middle) \<le>s offset then
             findChunkIndexForOffset_loop tbl offset (middle + 1) right
        else Returns middle)"
      using lr mid "1.prems"
      by (subst findChunkIndexForOffset_loop.simps) (simp add: Let_def middle_def [symmetric])
    show ?thesis
      using "1.IH"(1) [of middle] "1.IH"(2) [of middle] lr mid "1.prems" middle_def
      by (simp add: unfold)
  qed
qed

text \<open>A seek to a negative offset fails with the invalid-seek error and leaves the reader.\<close>

lemma Seek_negative_offset:
  assumes "offset <s 0"
  shows "Seek repoOpen r offset 0 = Returns (r, - 1, Some ErrInvalidSeek)"
  using assms by (subst Seek.simps) simp

lemma findChunkIndexForOffset_at_totalLength:
  assumes inv: "seekTable_invariants r"
  shows "findChunkIndexForOffset r (totalLength r) = Panic PanicUnreachableCode"
proof -
  define tbl where "tbl = seekTable r"
  define L where "L = totalLength r"
  have ne: "tbl \<noteq> []" and ca: "contiguous_ascending tbl"
    and len: "0 \<le> sint (Length (last tbl))"
    and total: "sint L = sint (Start (last tbl)) + sint (Length (last tbl))"
    using inv by (simp_all add: seekTable_invariants_def tbl_def L_def word_sle_eq)
  have last: "last tbl = tbl ! (length tbl - 1)"
    using ne by (simp add: last_conv_nth)
  have endL: "endOffset (last tbl) = L"
    using total by (simp add: endOffset_def sint_sum_eq)
  have none: "findChunkIndexForOffset_loop tbl L 0 (int (length tbl) - 1) \<noteq> Returns m" for m
  proof
    assume ret: "findChunkIndexForOffset_loop tbl L 0 (int (length tbl) - 1) = Returns m"
    have m: "0 \<le> m" "m \<le> int (length tbl) - 1" "sint L < sint (endOffset (tbl ! nat m))"
      using findChunkIndexForOffset_loop_Returns [OF ret]
      by (simp_all add: word_sless_alt)
    show False
    proof (cases "Suc (nat m) < length tbl")
      case True
      then have "endOffset (tbl ! nat m) = Start (tbl ! Suc (nat m))"
        using endOffset_nth [OF ca] by simp
      moreover have "sint (Start (tbl ! Suc (nat m))) \<le> sint (Start (tbl ! (length tbl - 1)))"
        using Start_mono [OF ca, of "Suc (nat m)" "length tbl - 1"] True by simp
      ultimately show False using m(3) total len last by simp
    next
      case False
      with m ne have "nat m = length tbl - 1" by (cases tbl) auto
      with m(3) last endL show False by simp
    qed
  qed
  have "findChunkIndexForOffset_loop tbl L 0 (int (length tbl) - 1) = Panic PanicUnreachableCode"
    using findChunkIndexForOffset_loop_outcomes [of 0 "int (length tbl) - 1" tbl L] none
    by auto
  then show ?thesis
    by (simp add: findChunkIndexForOffset_def tbl_def L_def)
qed

text \<open>
  Claim C2. The claim says that \<^verbatim>\<open>Seek(offset, 0)\<close> with \<open>offset\<close> beyond the total length
  \<open>L\<close> returns \<open>L\<close> without an error and without a panic. On every reader whose seek
  table has the invariants, the code clamps the offset to \<open>L\<close> and then panics with
  "Unreachable code": no entry holds the offset \<open>L\<close>, so the binary search of
  \<^verbatim>\<open>findChunkIndexForOffset\<close> falls out of its loop.
\<close>

theorem Seek_beyond_end_panics:
  assumes inv: "seekTable_invariants r" and beyond: "totalLength r <s offset"
  shows "Seek repoOpen r offset 0 = Panic PanicUnreachableCode"
proof -
  define tbl where "tbl = seekTable r"
  have ne: "tbl \<noteq> []" and ca: "contiguous_ascending tbl"
    and hd0: "Start (hd tbl) = 0"
    and len: "0 \<le> sint (Length (last tbl))"
    and total: "sint (totalLength r) = sint (Start (last tbl)) + sint (Length (last tbl))"
    using inv by (simp_all add: seekTable_invariants_def tbl_def word_sle_eq)
  have first: "Start (tbl ! 0) = 0"
    using hd0 ne by (simp add: hd_conv_nth)
  have "0 \<le> sint (Start (last tbl))"
    using Start_mono [OF ca, of 0 "length tbl - 1"] ne first by (simp add: last_conv_nth)
  with len total have "0 \<le> sint (totalLength r)" by simp
  with beyond have nonneg: "\<not> offset <s 0" by (simp add: word_sless_alt)
  show ?thesis
    using nonneg beyond findChunkIndexForOffset_at_totalLength [OF inv]
    by (subst Seek.simps) simp
qed

theorem Seek_beyond_end_panics_witness:
  "seekTable_invariants one_chunk_reader \<and> totalLength one_chunk_reader <s 11 \<and>
   Seek zeros_repoOpen one_chunk_reader 11 0 = Panic PanicUnreachableCode"
proof -
  have inv: "seekTable_invariants one_chunk_reader"
    by (simp add: seekTable_invariants_def one_chunk_reader_def word_sle_eq)
  have beyond: "totalLength one_chunk_reader <s 11"
    by (simp add: one_chunk_reader_def)
  show ?thesis
    using inv beyond Seek_beyond_end_panics [OF inv beyond, of zeros_repoOpen] by simp
qed

text \<open>
  Claim C3. The claim says that \<^verbatim>\<open>Seek\<close> returns the error of a failed open of the target
  chunk. When \<^verbatim>\<open>Seek\<close> has to open the chunk (it holds no chunk data after settling the
  chunk index) and \<^verbatim>\<open>openCurrentChunk\<close> returns an error, \<^verbatim>\<open>Seek\<close> returns the new
  position with no error: the error is dropped.
\<close>

theorem Seek_drops_open_error:
  assumes nonneg: "\<not> offset <s 0"
    and target: "target = (if totalLength r <s offset then totalLength r else offset)"
    and found: "findChunkIndexForOffset r target = Returns index"
    and switched: "r1 = (if index \<noteq> currentChunkIndex r
        then (closeCurrentChunk r)\<lparr>currentChunkIndex := index\<rparr> else r)"
    and must_open: "currentChunkData r1 = None"
    and open_fails: "openCurrentChunk repoOpen r1 = Returns (r1, Some err)"
  shows "Seek repoOpen r offset 0 =
     Returns (r1\<lparr>currentChunkPosition := sint (target - Start (seekTable r ! nat index)),
                 currentPosition := target\<rparr>, target, None)"
  using assms by (subst Seek.simps) (simp add: Let_def)

theorem Seek_drops_open_error_witness:
  "openCurrentChunk failing_repoOpen one_chunk_reader =
     Returns (one_chunk_reader, Some (ErrOther ''fetch failed'')) \<and>
   Seek failing_repoOpen one_chunk_reader 5 0 =
     Returns (one_chunk_reader\<lparr>currentChunkPosition := 5, currentPosition := 5\<rparr>, 5, None)"
proof -
  have nonneg: "\<not> (5 :: int64) <s 0" by (simp add: word_sless_alt)
  have target: "(5 :: int64) =
      (if totalLength one_chunk_reader <s 5 then totalLength one_chunk_reader else 5)"
    by (simp add: one_chunk_reader_def)
  have found: "findChunkIndexForOffset one_chunk_reader 5 = Returns 0"
    by (simp add: findChunkIndexForOffset_def one_chunk_reader_def quo_def endOffset_def
        word_sless_alt word_sle_eq findChunkIndexForOffset_loop.simps)
  have switched: "one_chunk_reader = (if 0 \<noteq> currentChunkIndex one_chunk_reader
      then (closeCurrentChunk one_chunk_reader)\<lparr>currentChunkIndex := 0\<rparr>
      else one_chunk_reader)"
    by (simp add: one_chunk_reader_def)
  have must_open: "currentChunkData one_chunk_reader = None"
    by (simp add: one_chunk_reader_def)
  have open_fails: "openCurrentChunk failing_repoOpen one_chunk_reader =
      Returns (one_chunk_reader, Some (ErrOther ''fetch failed''))"
    by (simp add: openCurrentChunk_def failing_repoOpen_def one_chunk_reader_def)
  have start: "sint ((5 :: int64) - Start (seekTable one_chunk_reader ! nat 0)) = 5"
    by (simp add: one_chunk_reader_def)
  show ?thesis
    using Seek_drops_open_error [OF nonneg target found switched must_open open_fails]
      open_fails start by simp
qed

section \<open>Properties of Read\<close>

text \<open>
  Claim C4. The claim says that \<^verbatim>\<open>Read\<close> with a zero-length buffer does not return
  \<open>EOF\<close> while the position is before the total length. On every reader and at every
  position, \<^verbatim>\<open>Read\<close> with a zero-length buffer returns \<open>(0, EOF)\<close> and leaves the reader
  as it was.
\<close>

theorem Read_empty_buffer_returns_EOF:
  "Read repoOpen r 0 = Returns (r, [], 0, Some EOF)"
  by (simp add: Read_def Read_loop.simps Read_return_def)

text \<open>
  At position 0 of the reader over one chunk of 10 bytes, a read into 4 bytes delivers 4
  bytes, and a read into 0 bytes returns \<open>EOF\<close>.
\<close>

theorem Read_empty_buffer_returns_EOF_witness:
  "currentPosition one_chunk_reader <s totalLength one_chunk_reader \<and>
   Read zeros_repoOpen one_chunk_reader 0 = Returns (one_chunk_reader, [], 0, Some EOF) \<and>
   (\<exists>r'. Read zeros_repoOpen one_chunk_reader 4 = Returns (r', replicate 4 0, 4, None))"
proof -
  have before: "currentPosition one_chunk_reader <s totalLength one_chunk_reader"
    by (simp add: one_chunk_reader_def word_sless_alt)
  have four: "\<exists>r'. Read zeros_repoOpen one_chunk_reader 4 = Returns (r', replicate 4 0, 4, None)"
    by (simp add: Read_def Read_loop.simps Read_return_def one_chunk_reader_def
        openCurrentChunk_def zeros_repoOpen_def ReadFull_def Let_def word_sless_alt
        closeCurrentChunk_def maxAlloc_def)
  show ?thesis
    using before four Read_empty_buffer_returns_EOF [of zeros_repoOpen one_chunk_reader]
    by simp
qed

text \<open>
  With a buffer that is not empty, \<^verbatim>\<open>Read\<close> does what claim C4 says: on a reader in a
  consistent state whose chunks are available it returns, with \<open>EOF\<close> exactly when the
  position is at or past the total length, and then with no byte; otherwise it returns at
  least one byte and no error. The reader stays consistent.
\<close>

lemma seekTable_entry_bounds:
  assumes inv: "seekTable_invariants r" and i: "i < length (seekTable r)"
  shows "0 \<le> sint (Start (seekTable r ! i))"
    and "0 \<le> sint (Length (seekTable r ! i))"
    and "sint (Start (seekTable r ! i)) + sint (Length (seekTable r ! i)) \<le> sint (totalLength r)"
    and "Suc i < length (seekTable r) \<Longrightarrow>
      sint (Start (seekTable r ! i)) + sint (Length (seekTable r ! i)) =
      sint (Start (seekTable r ! Suc i))"
    and "Suc i = length (seekTable r) \<Longrightarrow>
      sint (Start (seekTable r ! i)) + sint (Length (seekTable r ! i)) = sint (totalLength r)"
proof -
  define tbl where "tbl = seekTable r"
  have ne: "tbl \<noteq> []" and ca: "contiguous_ascending tbl"
    and hd0: "Start (hd tbl) = 0"
    and len: "0 \<le> sint (Length (last tbl))"
    and total: "sint (totalLength r) = sint (Start (last tbl)) + sint (Length (last tbl))"
    using inv by (simp_all add: seekTable_invariants_def tbl_def word_sle_eq)
  have i': "i < length tbl" using i by (simp add: tbl_def)
  have first: "Start (tbl ! 0) = 0" using hd0 ne by (simp add: hd_conv_nth)
  have last: "last tbl = tbl ! (length tbl - 1)" using ne by (simp add: last_conv_nth)
  show start: "0 \<le> sint (Start (seekTable r ! i))"
    using Start_mono [OF ca, of 0 i] i' first by (simp add: tbl_def)
  have next_eq: "sint (Start (tbl ! i)) + sint (Length (tbl ! i)) = sint (Start (tbl ! Suc i))"
    and next_lt: "sint (Start (tbl ! i)) < sint (Start (tbl ! Suc i))"
    if "Suc i < length tbl"
    using contiguous_ascending_nth [OF ca that] by simp_all
  have last_eq: "sint (Start (tbl ! i)) + sint (Length (tbl ! i)) = sint (totalLength r)"
    if "Suc i = length tbl"
    using that total last by (simp add: that [symmetric])
  show "Suc i < length (seekTable r) \<Longrightarrow>
      sint (Start (seekTable r ! i)) + sint (Length (seekTable r ! i)) =
      sint (Start (seekTable r ! Suc i))"
    using next_eq by (simp add: tbl_def)
  show "Suc i = length (seekTable r) \<Longrightarrow>
      sint (Start (seekTable r ! i)) + sint (Length (seekTable r ! i)) = sint (totalLength r)"
    using last_eq by (simp add: tbl_def)
  show "0 \<le> sint (Length (seekTable r ! i))"
  proof (cases "Suc i < length tbl")
    case True
    with next_eq next_lt show ?thesis by (simp add: tbl_def)
  next
    case False
    with i' have "i = length tbl - 1" by simp
    with len last show ?thesis by (simp add: tbl_def)
  qed
  show "sint (Start (seekTable r ! i)) + sint (Length (seekTable r ! i)) \<le> sint (totalLength r)"
  proof (cases "Suc i < length tbl")
    case True
    have "sint (Start (tbl ! Suc i)) \<le> sint (Start (tbl ! (length tbl - 1)))"
      using Start_mono [OF ca, of "Suc i" "length tbl - 1"] True by simp
    with next_eq [OF True] total len last show ?thesis by (simp add: tbl_def)
  next
    case False
    with i' have "Suc i = length tbl" by simp
    with last_eq show ?thesis by (simp add: tbl_def)
  qed
qed

lemma sint_add_in_range:
  fixes p :: int64
  assumes "0 \<le> sint p" and "0 \<le> t" and "sint p + t < 2 ^ 63"
  shows "sint (p + word_of_int t) = sint p + t"
proof -
  have t: "t < 2 ^ 63" using assms by linarith
  have "sint (word_of_int t :: int64) = t"
    using assms(2) t by (simp add: Word.sint_sbintrunc' signed_take_bit_int_eq_self)
  then have "sint (p + word_of_int t) = signed_take_bit 63 (sint p + t)"
    by (simp add: sint_word_ariths)
  also have "\<dots> = sint p + t"
    using assms by (simp add: signed_take_bit_int_eq_self)
  finally show ?thesis .
qed

lemma sint_eq_imp_eq:
  fixes a b :: int64
  assumes "sint a = sint b"
  shows "a = b"
proof -
  have "word_of_int (sint a) = (word_of_int (sint b) :: int64)"
    using assms by simp
  then show ?thesis by simp
qed

lemma reader_consistent_next_chunk:
  assumes cons: "reader_consistent r" and d: "currentChunkData r = Some d"
    and full: "int (length d) - currentChunkPosition r = 0"
  shows "reader_consistent
     ((closeCurrentChunk r)\<lparr>currentChunkIndex := currentChunkIndex r + 1\<rparr>)"
proof -
  define i where "i = nat (currentChunkIndex r)"
  have inv: "seekTable_invariants r" and idx: "0 \<le> currentChunkIndex r"
    and i: "i < length (seekTable r)"
    and len: "int (length d) = sint (Length (seekTable r ! i))"
    and pos: "sint (currentPosition r) = sint (Start (seekTable r ! i)) + currentChunkPosition r"
    using cons d by (auto simp: reader_consistent_def i_def)
  have idx': "currentChunkIndex r = int i" using idx by (simp add: i_def)
  have end_pos: "sint (currentPosition r) =
      sint (Start (seekTable r ! i)) + sint (Length (seekTable r ! i))"
    using pos len full by simp
  have inv': "seekTable_invariants
      ((closeCurrentChunk r)\<lparr>currentChunkIndex := currentChunkIndex r + 1\<rparr>)"
    using inv by (simp add: seekTable_invariants_def closeCurrentChunk_def)
  show ?thesis
  proof (cases "Suc i < length (seekTable r)")
    case True
    have "sint (currentPosition r) = sint (Start (seekTable r ! Suc i))"
      using seekTable_entry_bounds(4) [OF inv i True] end_pos by simp
    then have "currentPosition r = Start (seekTable r ! Suc i)"
      by (rule sint_eq_imp_eq)
    with True inv' show ?thesis
      by (simp add: reader_consistent_def closeCurrentChunk_def idx' nat_add_distrib)
  next
    case False
    with i have last: "Suc i = length (seekTable r)" by simp
    have "sint (currentPosition r) = sint (totalLength r)"
      using seekTable_entry_bounds(5) [OF inv i last] end_pos by simp
    then have "currentPosition r = totalLength r"
      by (rule sint_eq_imp_eq)
    with last inv' show ?thesis
      by (simp add: reader_consistent_def closeCurrentChunk_def idx')
  qed
qed

lemma reader_consistent_copy:
  assumes cons: "reader_consistent r" and d: "currentChunkData r = Some d"
    and t: "0 < t" "t \<le> int (length d) - currentChunkPosition r"
  shows "reader_consistent
     (r\<lparr>currentChunkPosition := currentChunkPosition r + t,
        currentPosition := currentPosition r + word_of_int t\<rparr>)"
    and "currentPosition r <s totalLength r"
proof -
  define i where "i = nat (currentChunkIndex r)"
  have inv: "seekTable_invariants r" and idx: "0 \<le> currentChunkIndex r"
    and i: "i < length (seekTable r)"
    and len: "int (length d) = sint (Length (seekTable r ! i))"
    and cpos: "0 \<le> currentChunkPosition r"
    and pos: "sint (currentPosition r) = sint (Start (seekTable r ! i)) + currentChunkPosition r"
    using cons d by (auto simp: reader_consistent_def i_def)
  have start: "0 \<le> sint (Start (seekTable r ! i))"
    and total: "sint (Start (seekTable r ! i)) + sint (Length (seekTable r ! i))
      \<le> sint (totalLength r)"
    using seekTable_entry_bounds [OF inv i] by simp_all
  have "sint (totalLength r) < 2 ^ 63" using sint_lt [of "totalLength r"] by simp
  with total pos len t have room: "sint (currentPosition r) + t < 2 ^ 63" by linarith
  have nonneg: "0 \<le> sint (currentPosition r)" using pos start cpos by simp
  have new_pos: "sint (currentPosition r + word_of_int t) = sint (currentPosition r) + t"
    using sint_add_in_range [OF nonneg _ room] t(1) by simp
  have inv': "seekTable_invariants
      (r\<lparr>currentChunkPosition := currentChunkPosition r + t,
         currentPosition := currentPosition r + word_of_int t\<rparr>)"
    using inv by (simp add: seekTable_invariants_def)
  show "reader_consistent
     (r\<lparr>currentChunkPosition := currentChunkPosition r + t,
        currentPosition := currentPosition r + word_of_int t\<rparr>)"
    using cons d t cpos pos new_pos inv'
    by (simp add: reader_consistent_def i_def)
  show "currentPosition r <s totalLength r"
    using total pos len t by (simp add: word_sless_alt)
qed

lemma openCurrentChunk_available:
  assumes cons: "reader_consistent r" and avail: "chunks_available repoOpen (seekTable r)"
    and closed: "currentChunkData r = None"
    and idx: "currentChunkIndex r < int (length (seekTable r))"
  shows "\<exists>b. openCurrentChunk repoOpen r =
        Returns (r\<lparr>currentChunkData := Some b, currentChunkPosition := 0\<rparr>, None) \<and>
      reader_consistent (r\<lparr>currentChunkData := Some b, currentChunkPosition := 0\<rparr>)"
proof -
  define i where "i = nat (currentChunkIndex r)"
  define st where "st = seekTable r ! i"
  have inv: "seekTable_invariants r" and idx0: "0 \<le> currentChunkIndex r"
    and pos: "currentPosition r = Start (seekTable r ! i)"
    using cons closed idx by (simp_all add: reader_consistent_def i_def)
  have i: "i < length (seekTable r)" using idx idx0 by (simp add: i_def)
  have len: "0 \<le> sint (Length st)"
    using seekTable_entry_bounds(2) [OF inv i] by (simp add: st_def)
  have "st \<in> set (seekTable r)" using i by (simp add: st_def)
  then obtain bs err where opened: "repoOpen (Object st) = Returns (Inr (bs, err))"
    and enough: "nat (sint (Length st)) \<le> length bs"
    and fits: "\<not> maxAlloc < sint (Length st)"
    using avail by (fastforce simp: chunks_available_def)
  define b where "b = take (nat (sint (Length st))) bs"
  have "openCurrentChunk repoOpen r =
      Returns (r\<lparr>currentChunkData := Some b, currentChunkPosition := 0\<rparr>, None)"
    using idx idx0 opened enough len fits
    by (simp add: openCurrentChunk_def Let_def ReadFull_def word_sless_alt
        i_def [symmetric] st_def [symmetric] b_def)
  moreover have "length b = nat (sint (Length st))"
    using enough by (simp add: b_def)
  then have "reader_consistent (r\<lparr>currentChunkData := Some b, currentChunkPosition := 0\<rparr>)"
    using cons idx len pos inv
    by (simp add: reader_consistent_def seekTable_invariants_def i_def [symmetric]
        st_def [symmetric])
  ultimately show ?thesis by blast
qed

lemma Read_loop_consistent:
  "reader_consistent r \<Longrightarrow> chunks_available repoOpen (seekTable r) \<Longrightarrow> 0 \<le> readBytes \<Longrightarrow>
   \<exists>r' out cnt. Read_loop repoOpen r remaining copied readBytes =
       Returns (r', out, cnt,
         if 0 < readBytes \<or> (0 < remaining \<and> currentPosition r <s totalLength r)
         then None else Some EOF) \<and>
     (0 < cnt \<longleftrightarrow> 0 < readBytes \<or> (0 < remaining \<and> currentPosition r <s totalLength r)) \<and>
     0 \<le> cnt \<and> reader_consistent r'"
proof (induction repoOpen r remaining copied readBytes rule: Read_loop.induct)
  case (1 repoOpen r remaining copied readBytes)
  note cons = \<open>reader_consistent r\<close>
    and avail = \<open>chunks_available repoOpen (seekTable r)\<close>
    and rb = \<open>0 \<le> readBytes\<close>
  show ?case
  proof (cases "0 < remaining")
    case False
    then have "Read_loop repoOpen r remaining copied readBytes = Read_return r copied readBytes"
      by (subst Read_loop.simps) simp
    with False cons rb show ?thesis by (auto simp: Read_return_def)
  next
    case rem: True
    show ?thesis
    proof (cases "currentChunkData r")
      case None
      show ?thesis
      proof (cases "currentChunkIndex r < int (length (seekTable r))")
        case True
        obtain b where opened: "openCurrentChunk repoOpen r =
            Returns (r\<lparr>currentChunkData := Some b, currentChunkPosition := 0\<rparr>, None)"
          and cons1: "reader_consistent (r\<lparr>currentChunkData := Some b, currentChunkPosition := 0\<rparr>)"
          using openCurrentChunk_available [OF cons avail None True] by blast
        define r1 where "r1 = r\<lparr>currentChunkData := Some b, currentChunkPosition := 0\<rparr>"
        have step: "Read_loop repoOpen r remaining copied readBytes =
            Read_loop repoOpen r1 remaining copied readBytes"
          using rem None True opened by (subst Read_loop.simps) (simp add: r1_def)
        have same: "seekTable r1 = seekTable r" "currentPosition r1 = currentPosition r"
          "totalLength r1 = totalLength r"
          by (simp_all add: r1_def)
        from "1.IH"(1) [OF rem None True opened [folded r1_def] refl refl]
          cons1 [folded r1_def] avail rb same
        show ?thesis using step by simp
      next
        case False
        with cons None have pos: "currentPosition r = totalLength r"
          by (simp add: reader_consistent_def)
        have "Read_loop repoOpen r remaining copied readBytes = Read_return r copied readBytes"
          using rem None False by (subst Read_loop.simps) simp
        with pos cons rb show ?thesis by (auto simp: Read_return_def word_sless_alt)
      qed
    next
      case (Some d)
      define toCopy where "toCopy = int (length d) - currentChunkPosition r"
      have bounds: "0 \<le> currentChunkPosition r" "currentChunkPosition r \<le> int (length d)"
        using cons Some by (simp_all add: reader_consistent_def)
      show ?thesis
      proof (cases "toCopy = 0")
        case True
        define r1 where
          "r1 = (closeCurrentChunk r)\<lparr>currentChunkIndex := currentChunkIndex r + 1\<rparr>"
        have cons1: "reader_consistent r1"
          using reader_consistent_next_chunk [OF cons Some] True by (simp add: toCopy_def r1_def)
        have step: "Read_loop repoOpen r remaining copied readBytes =
            Read_loop repoOpen r1 remaining copied readBytes"
          using rem Some True
          by (subst Read_loop.simps) (simp add: toCopy_def r1_def Let_def)
        have same: "seekTable r1 = seekTable r" "currentPosition r1 = currentPosition r"
          "totalLength r1 = totalLength r"
          by (simp_all add: r1_def closeCurrentChunk_def)
        from "1.IH"(2) [OF rem Some toCopy_def True, folded r1_def] cons1 avail rb same
        show ?thesis using step by simp
      next
        case False
        define t where "t = (if int remaining < toCopy then int remaining else toCopy)"
        have tpos: "0 < t" "t \<le> toCopy"
          using False bounds rem by (auto simp: t_def toCopy_def)
        define r1 where "r1 = r\<lparr>currentChunkPosition := currentChunkPosition r + t,
            currentPosition := currentPosition r + word_of_int t\<rparr>"
        have cons1: "reader_consistent r1" and before: "currentPosition r <s totalLength r"
          using reader_consistent_copy [OF cons Some tpos(1)] tpos(2)
          by (simp_all add: r1_def toCopy_def)
        have no_panic: "\<not> (currentChunkPosition r < 0 \<or> int (length d) < currentChunkPosition r)"
          using bounds by simp
        have step: "Read_loop repoOpen r remaining copied readBytes =
            Read_loop repoOpen r1 (remaining - nat t)
              (copied @ take (nat t) (drop (nat (currentChunkPosition r)) d)) (readBytes + t)"
          using rem Some False no_panic
          by (subst Read_loop.simps)
            (simp add: toCopy_def [symmetric] t_def [symmetric] r1_def Let_def)
        have same: "seekTable r1 = seekTable r" by (simp add: r1_def)
        have more: "0 \<le> readBytes + t" "0 < readBytes + t" using rb tpos by simp_all
        from "1.IH"(3) [OF rem Some toCopy_def False t_def no_panic, folded r1_def]
          cons1 avail more same
        show ?thesis using step before rem by simp
      qed
    qed
  qed
qed

lemma Read_EOF_iff_at_end:
  assumes cons: "reader_consistent r" and avail: "chunks_available repoOpen (seekTable r)"
    and buffer: "0 < len_buffer"
  shows "\<exists>r' out cnt err. Read repoOpen r len_buffer = Returns (r', out, cnt, err) \<and>
      (err = Some EOF \<longleftrightarrow> totalLength r \<le>s currentPosition r) \<and>
      (err = Some EOF \<longrightarrow> cnt = 0) \<and> (err \<noteq> Some EOF \<longrightarrow> err = None \<and> 0 < cnt) \<and>
      reader_consistent r'"
proof -
  obtain r' out cnt where res: "Read_loop repoOpen r len_buffer [] 0 =
       Returns (r', out, cnt,
         if (0 :: int) < 0 \<or> (0 < len_buffer \<and> currentPosition r <s totalLength r)
         then None else Some EOF)"
    and cnt: "0 < cnt \<longleftrightarrow> (0 :: int) < 0 \<or> (0 < len_buffer \<and> currentPosition r <s totalLength r)"
      "0 \<le> cnt"
    and cons': "reader_consistent r'"
    using Read_loop_consistent [OF cons avail, of 0 len_buffer "[]"] by auto
  show ?thesis
    using res cnt cons' buffer
    by (auto simp: Read_def word_sless_alt word_sle_eq)
qed

text \<open>
  A reader as \<^verbatim>\<open>Open\<close> builds it, over a seek table with the invariants, is consistent;
  so is the example reader, whose chunks the example repository delivers.
\<close>

lemma reader_consistent_initial:
  assumes "seekTable_invariants r" and "currentChunkIndex r = 0"
    and "currentChunkData r = None" and "currentPosition r = 0"
  shows "reader_consistent r"
proof -
  have ne: "seekTable r \<noteq> []" and "Start (hd (seekTable r)) = 0"
    using assms(1) by (simp_all add: seekTable_invariants_def)
  then have "Start (seekTable r ! 0) = 0" by (simp add: hd_conv_nth)
  with assms ne show ?thesis by (simp add: reader_consistent_def)
qed

lemma one_chunk_reader_consistent:
  "reader_consistent one_chunk_reader \<and>
   chunks_available zeros_repoOpen (seekTable one_chunk_reader)"
proof -
  have "seekTable_invariants one_chunk_reader"
    by (simp add: seekTable_invariants_def one_chunk_reader_def word_sle_eq)
  then have "reader_consistent one_chunk_reader"
    by (rule reader_consistent_initial) (simp_all add: one_chunk_reader_def)
  moreover have "chunks_available zeros_repoOpen (seekTable one_chunk_reader)"
    by (simp add: chunks_available_def zeros_repoOpen_def one_chunk_reader_def maxAlloc_def)
  ultimately show ?thesis by simp
qed

section \<open>Properties of hashEncryptAndWrite\<close>

text \<open>
  The paths of \<^verbatim>\<open>hashEncryptAndWrite\<close> after the pack decision is not taken: the
  existence check fails with an error other than not-found, the block is present with the
  length of the data, the encryption fails, the block is written.
\<close>

lemma hashEncryptAndWrite_check_error:
  fixes r :: "'w ObjectManager"
  assumes data: "data = (case buffer of None \<Rightarrow> [] | Some b \<Rightarrow> b)"
    and not_packed: "\<not> (\<not> disablePacking \<and> enabled (packMgr r) (world r) \<and>
        0 < MaxPackedContentLength (format r) \<and>
        int (length data) \<le> MaxPackedContentLength (format r))"
    and name: "blockName = prefix @ StorageBlock (ComputeObjectID (formatter r) data)"
    and check: "getSize (blockSizeCache r) (world r) blockName = ((blockSize, Some err), w)"
    and other: "err \<noteq> ErrBlockNotFound"
  shows "\<exists>r'. hashEncryptAndWrite r packGroup buffer prefix disablePacking =
        ((NullObjectID, Some err), r') \<and>
      calls r' = calls r @ [Call_getSize blockName] \<and> world r' = w \<and>
      EncryptedBytes (stats r') = EncryptedBytes (stats r) \<and>
      WrittenBlocks (stats r') = WrittenBlocks (stats r) \<and>
      WrittenBytes (stats r') = WrittenBytes (stats r) \<and>
      PresentBlocks (stats r') = PresentBlocks (stats r)"
proof -
  have check': "getSize (blockSizeCache r) (world r)
      (prefix @ StorageBlock (ComputeObjectID (formatter r) data)) = ((blockSize, Some err), w)"
    using check by (simp add: name)
  from not_packed consider "disablePacking" | "\<not> enabled (packMgr r) (world r)"
    | "\<not> 0 < MaxPackedContentLength (format r)"
    | "\<not> int (length data) \<le> MaxPackedContentLength (format r)"
    by blast
  then show ?thesis
  proof cases
    case 1
    with check' other show ?thesis
      unfolding hashEncryptAndWrite_def data [symmetric]
      by (simp add: Let_def called_def name)
  next
    case 2
    with check' other show ?thesis
      unfolding hashEncryptAndWrite_def data [symmetric]
      by (simp add: Let_def called_def name)
  next
    case 3
    with check' other show ?thesis
      unfolding hashEncryptAndWrite_def data [symmetric]
      by (simp add: Let_def called_def name)
  next
    case 4
    with check' other show ?thesis
      unfolding hashEncryptAndWrite_def data [symmetric]
      by (simp add: Let_def called_def name)
  qed
qed

lemma hashEncryptAndWrite_hit:
  fixes r :: "'w ObjectManager"
  assumes data: "data = (case buffer of None \<Rightarrow> [] | Some b \<Rightarrow> b)"
    and not_packed: "\<not> (\<not> disablePacking \<and> enabled (packMgr r) (world r) \<and>
        0 < MaxPackedContentLength (format r) \<and>
        int (length data) \<le> MaxPackedContentLength (format r))"
    and h: "h = ComputeObjectID (formatter r) data"
    and check: "getSize (blockSizeCache r) (world r) (prefix @ StorageBlock h) =
        ((of_nat (length data), None), w)"
  shows "\<exists>r'. hashEncryptAndWrite r packGroup buffer prefix disablePacking =
        ((ObjectID (prefix @ StorageBlock h) (Indirect h) (Section h) (BinaryContent h)
            (TextContent h), None), r') \<and>
      calls r' = calls r @ [Call_getSize (prefix @ StorageBlock h)] \<and> world r' = w \<and>
      PresentBlocks (stats r') = PresentBlocks (stats r) + 1 \<and>
      EncryptedBytes (stats r') = EncryptedBytes (stats r) \<and>
      WrittenBlocks (stats r') = WrittenBlocks (stats r) \<and>
      WrittenBytes (stats r') = WrittenBytes (stats r)"
proof -
  from not_packed consider "disablePacking" | "\<not> enabled (packMgr r) (world r)"
    | "\<not> 0 < MaxPackedContentLength (format r)"
    | "\<not> int (length data) \<le> MaxPackedContentLength (format r)"
    by blast
  then show ?thesis
  proof cases
    case 1
    with check show ?thesis
      unfolding hashEncryptAndWrite_def data [symmetric] h
      by (simp add: Let_def called_def)
  next
    case 2
    with check show ?thesis
      unfolding hashEncryptAndWrite_def data [symmetric] h
      by (simp add: Let_def called_def)
  next
    case 3
    with check show ?thesis
      unfolding hashEncryptAndWrite_def data [symmetric] h
      by (simp add: Let_def called_def)
  next
    case 4
    with check show ?thesis
      unfolding hashEncryptAndWrite_def data [symmetric] h
      by (simp add: Let_def called_def)
  qed
qed

lemma hashEncryptAndWrite_encrypt_error:
  fixes r :: "'w ObjectManager"
  assumes data: "data = (case buffer of None \<Rightarrow> [] | Some b \<Rightarrow> b)"
    and not_packed: "\<not> (\<not> disablePacking \<and> enabled (packMgr r) (world r) \<and>
        0 < MaxPackedContentLength (format r) \<and>
        int (length data) \<le> MaxPackedContentLength (format r))"
    and h: "h = ComputeObjectID (formatter r) data"
    and oid: "objectID = ObjectID (prefix @ StorageBlock h) (Indirect h) (Section h)
        (BinaryContent h) (TextContent h)"
    and check: "getSize (blockSizeCache r) (world r) (prefix @ StorageBlock h) =
        ((blockSize, cerr), w)"
    and no_hit: "\<not> (cerr = None \<and> blockSize = of_nat (length data))"
    and absent: "cerr = None \<or> cerr = Some ErrBlockNotFound"
    and enc: "Encrypt (formatter r) data objectID 0 = (ciphertext, Some eerr)"
  shows "\<exists>r'. hashEncryptAndWrite r packGroup buffer prefix disablePacking =
        ((NullObjectID, Some eerr), r') \<and>
      calls r' = calls r @ [Call_getSize (prefix @ StorageBlock h),
        Call_Encrypt data objectID 0] \<and>
      world r' = w \<and>
      PresentBlocks (stats r') = PresentBlocks (stats r) \<and>
      WrittenBlocks (stats r') = WrittenBlocks (stats r) \<and>
      WrittenBytes (stats r') = WrittenBytes (stats r)"
proof -
  from not_packed consider "disablePacking" | "\<not> enabled (packMgr r) (world r)"
    | "\<not> 0 < MaxPackedContentLength (format r)"
    | "\<not> int (length data) \<le> MaxPackedContentLength (format r)"
    by blast
  then show ?thesis
  proof cases
    case 1
    with check no_hit absent enc show ?thesis
      unfolding hashEncryptAndWrite_def data [symmetric] oid h
      by (simp add: Let_def called_def)
  next
    case 2
    with check no_hit absent enc show ?thesis
      unfolding hashEncryptAndWrite_def data [symmetric] oid h
      by (simp add: Let_def called_def)
  next
    case 3
    with check no_hit absent enc show ?thesis
      unfolding hashEncryptAndWrite_def data [symmetric] oid h
      by (simp add: Let_def called_def)
  next
    case 4
    with check no_hit absent enc show ?thesis
      unfolding hashEncryptAndWrite_def data [symmetric] oid h
      by (simp add: Let_def called_def)
  qed
qed

lemma hashEncryptAndWrite_miss:
  fixes r :: "'w ObjectManager"
  assumes data: "data = (case buffer of None \<Rightarrow> [] | Some b \<Rightarrow> b)"
    and not_packed: "\<not> (\<not> disablePacking \<and> enabled (packMgr r) (world r) \<and>
        0 < MaxPackedContentLength (format r) \<and>
        int (length data) \<le> MaxPackedContentLength (format r))"
    and h: "h = ComputeObjectID (formatter r) data"
    and oid: "objectID = ObjectID (prefix @ StorageBlock h) (Indirect h) (Section h)
        (BinaryContent h) (TextContent h)"
    and check: "getSize (blockSizeCache r) (world r) (prefix @ StorageBlock h) =
        ((blockSize, cerr), w)"
    and no_hit: "\<not> (cerr = None \<and> blockSize = of_nat (length data))"
    and absent: "cerr = None \<or> cerr = Some ErrBlockNotFound"
    and enc: "Encrypt (formatter r) data objectID 0 = (ciphertext, None)"
    and put: "PutBlock (storage r) w (prefix @ StorageBlock h) ciphertext = (perr, w')"
  shows "\<exists>r'. hashEncryptAndWrite r packGroup buffer prefix disablePacking =
        ((if perr = None then objectID else NullObjectID, perr), r') \<and>
      calls r' = calls r @ [Call_getSize (prefix @ StorageBlock h),
        Call_Encrypt data objectID 0, Call_PutBlock (prefix @ StorageBlock h) ciphertext] \<and>
      world r' = w' \<and>
      PresentBlocks (stats r') = PresentBlocks (stats r) \<and>
      EncryptedBytes (stats r') = EncryptedBytes (stats r) + of_nat (length data) \<and>
      WrittenBlocks (stats r') = WrittenBlocks (stats r) + 1 \<and>
      WrittenBytes (stats r') = WrittenBytes (stats r) + of_nat (length ciphertext)"
proof -
  from not_packed consider "disablePacking" | "\<not> enabled (packMgr r) (world r)"
    | "\<not> 0 < MaxPackedContentLength (format r)"
    | "\<not> int (length data) \<le> MaxPackedContentLength (format r)"
    by blast
  then show ?thesis
  proof cases
    case 1
    with check no_hit absent enc put show ?thesis
      unfolding hashEncryptAndWrite_def data [symmetric] oid h
      by (simp add: Let_def called_def)
  next
    case 2
    with check no_hit absent enc put show ?thesis
      unfolding hashEncryptAndWrite_def data [symmetric] oid h
      by (simp add: Let_def called_def)
  next
    case 3
    with check no_hit absent enc put show ?thesis
      unfolding hashEncryptAndWrite_def data [symmetric] oid h
      by (simp add: Let_def called_def)
  next
    case 4
    with check no_hit absent enc put show ?thesis
      unfolding hashEncryptAndWrite_def data [symmetric] oid h
      by (simp add: Let_def called_def)
  qed
qed




text \<open>
  Claim C7. When the pack decision is not taken and the existence check returns an error
  other than \<open>ErrBlockNotFound\<close>, \<^verbatim>\<open>hashEncryptAndWrite\<close> returns the null ObjectID with
  that error; the only call it has made is the existence check (no \<^verbatim>\<open>Encrypt\<close>, no
  \<^verbatim>\<open>PutBlock\<close>), and the counters of encrypted and written data are unchanged.
\<close>

theorem hashEncryptAndWrite_existence_check_error:
  fixes r :: "'w ObjectManager"
  assumes data: "data = (case buffer of None \<Rightarrow> [] | Some b \<Rightarrow> b)"
    and not_packed: "\<not> (\<not> disablePacking \<and> enabled (packMgr r) (world r) \<and>
        0 < MaxPackedContentLength (format r) \<and>
        int (length data) \<le> MaxPackedContentLength (format r))"
    and name: "blockName = prefix @ StorageBlock (ComputeObjectID (formatter r) data)"
    and check: "getSize (blockSizeCache r) (world r) blockName = ((blockSize, Some err), w)"
    and other: "err \<noteq> ErrBlockNotFound"
  shows "\<exists>r'. hashEncryptAndWrite r packGroup buffer prefix disablePacking =
        ((NullObjectID, Some err), r') \<and>
      calls r' = calls r @ [Call_getSize blockName] \<and> world r' = w \<and>
      EncryptedBytes (stats r') = EncryptedBytes (stats r) \<and>
      WrittenBlocks (stats r') = WrittenBlocks (stats r) \<and>
      WrittenBytes (stats r') = WrittenBytes (stats r)"
  using hashEncryptAndWrite_check_error [OF data not_packed name check other] by blast

theorem hashEncryptAndWrite_existence_check_error_witness:
  "\<exists>r'. hashEncryptAndWrite ((example_manager Map.empty)\<lparr>blockSizeCache := failing_blockSizeCache\<rparr>)
        ''g'' (Some [1]) ''P'' True = ((NullObjectID, Some (ErrOther ''timeout'')), r') \<and>
      calls r' = [Call_getSize ''Pone''] \<and> WrittenBlocks (stats r') = 0"
proof -
  let ?r = "(example_manager Map.empty)\<lparr>blockSizeCache := failing_blockSizeCache\<rparr>"
  have data: "[1 :: byte] = (case Some [1] of None \<Rightarrow> [] | Some b \<Rightarrow> b)" by simp
  have not_packed: "\<not> (\<not> True \<and> enabled (packMgr ?r) (world ?r) \<and>
        0 < MaxPackedContentLength (format ?r) \<and>
        int (length [1 :: byte]) \<le> MaxPackedContentLength (format ?r))" by simp
  have name: "''Pone'' = ''P'' @ StorageBlock (ComputeObjectID (formatter ?r) [1])"
    by (simp add: example_manager_def example_formatter_def)
  have check: "getSize (blockSizeCache ?r) (world ?r) ''Pone'' =
      ((0, Some (ErrOther ''timeout'')), Map.empty)"
    by (simp add: example_manager_def failing_blockSizeCache_def)
  have other: "ErrOther ''timeout'' \<noteq> ErrBlockNotFound" by simp
  show ?thesis
    using hashEncryptAndWrite_existence_check_error [OF data not_packed name check other,
        where packGroup = "''g''"]
    by (auto simp: example_manager_def zero_Stats_def)
qed

text \<open>
  Claim C8. The claim says that the chunk is handed to the pack manager under the block
  name with the prefix prepended exactly once. When the pack decision is taken, the code
  calls \<^verbatim>\<open>AddToPack\<close> with \<^verbatim>\<open>prefix+objectID.StorageBlock\<close> after it has already set
  \<^verbatim>\<open>objectID.StorageBlock\<close> to \<^verbatim>\<open>prefix + objectID.StorageBlock\<close>: the name carries the
  prefix twice. The ObjectID and error of \<^verbatim>\<open>AddToPack\<close> are returned as they are.
\<close>

theorem hashEncryptAndWrite_pack_block_name:
  fixes r :: "'w ObjectManager"
  assumes data: "data = (case buffer of None \<Rightarrow> [] | Some b \<Rightarrow> b)"
    and not_disabled: "\<not> disablePacking"
    and pack_enabled: "enabled (packMgr r) (world r)"
    and positive: "0 < MaxPackedContentLength (format r)"
    and small: "int (length data) \<le> MaxPackedContentLength (format r)"
    and h: "h = ComputeObjectID (formatter r) data"
    and pack: "AddToPack (packMgr r) (world r) packGroup (prefix @ prefix @ StorageBlock h) data =
        ((packOID, err), w)"
  shows "\<exists>r'. hashEncryptAndWrite r packGroup buffer prefix disablePacking =
        ((packOID, err), r') \<and>
      calls r' = calls r @ [Call_AddToPack packGroup (prefix @ prefix @ StorageBlock h) data] \<and>
      world r' = w"
  using not_disabled pack_enabled positive small pack
  unfolding hashEncryptAndWrite_def data [symmetric] h
  by (simp add: Let_def called_def)

theorem hashEncryptAndWrite_pack_block_name_witness:
  "\<exists>r'. hashEncryptAndWrite (example_manager Map.empty) ''g'' (Some [1]) ''P'' False =
        ((ObjectID ''PPone'' None None None [], None), r') \<and>
      calls r' = [Call_AddToPack ''g'' ''PPone'' [1]] \<and>
      ''P'' @ StorageBlock (ComputeObjectID (formatter (example_manager Map.empty)) [1]) = ''Pone''"
proof -
  let ?r = "example_manager Map.empty"
  let ?h = "ObjectID ''one'' None None None []"
  have data: "[1 :: byte] = (case Some [1] of None \<Rightarrow> [] | Some b \<Rightarrow> b)" by simp
  have not_disabled: "\<not> False" by simp
  have pack_enabled: "enabled (packMgr ?r) (world ?r)"
    by (simp add: example_manager_def example_packMgr_def)
  have positive: "0 < MaxPackedContentLength (format ?r)"
    by (simp add: example_manager_def example_format_def)
  have small: "int (length [1 :: byte]) \<le> MaxPackedContentLength (format ?r)"
    by (simp add: example_manager_def example_format_def)
  have h: "?h = ComputeObjectID (formatter ?r) [1]"
    by (simp add: example_manager_def example_formatter_def)
  have pack: "AddToPack (packMgr ?r) (world ?r) ''g'' (''P'' @ ''P'' @ StorageBlock ?h) [1] =
      ((ObjectID ''PPone'' None None None [], None), Map.empty)"
    by (simp add: example_manager_def example_packMgr_def)
  have once: "''P'' @ StorageBlock (ComputeObjectID (formatter ?r) [1]) = ''Pone''"
    by (simp add: example_manager_def example_formatter_def)
  have no_calls: "calls ?r = []" by (simp add: example_manager_def)
  show ?thesis
    using hashEncryptAndWrite_pack_block_name [OF data not_disabled pack_enabled positive
        small h pack] once no_calls
    by auto
qed

section \<open>Properties of newRawReader\<close>



section \<open>Properties of Open\<close>

text \<open>
  Claim C10. \<^verbatim>\<open>Open\<close> on an indirect ObjectID whose list chunk opens and parses without an
  error but holds no entry panics with an index out of range; it returns no error value.
\<close>

theorem Open_indirect_empty_list_panics:
  fixes r :: "'w ObjectManager"
  assumes inner: "Open ext r ind = Returns ((Some rd, None), r1)"
    and parsed: "jsonstream_NewReader ext rd = (([], EOF), None)"
  shows "Open ext r (ObjectID sb (Some ind) None bin txt) = Panic PanicIndexOutOfRange"
  using inner parsed by (simp add: flattenListChunk_def)

theorem Open_indirect_empty_list_panics_witness:
  "Open example_externals (example_manager Map.empty) (ObjectID [] None None (Some []) []) =
     Returns ((Some (newObjectReaderWithData []), None), example_manager Map.empty) \<and>
   Open example_externals (example_manager Map.empty)
     (ObjectID [] (Some (ObjectID [] None None (Some []) [])) None None []) =
     Panic PanicIndexOutOfRange"
proof -
  have inner: "Open example_externals (example_manager Map.empty) (ObjectID [] None None (Some []) []) =
      Returns ((Some (newObjectReaderWithData []), None), example_manager Map.empty)"
    by simp
  have parsed: "jsonstream_NewReader example_externals (newObjectReaderWithData []) =
      (([], EOF), None)"
    by (simp add: example_externals_def newObjectReaderWithData_def)
  show ?thesis
    using inner Open_indirect_empty_list_panics [OF inner parsed] by simp
qed

section \<open>Properties of Initialize\<close>




end
